theory Spec2Isabelle
  imports Complex_Main "HOL-Library.Word" "HOL-Library.Sublist"
begin

unbundle bit_operations_syntax

section \<open>Data model of \<open>CVideoRecorder\<close>\<close>

text \<open>
  The recorder of \<open>VideoRecorder.cpp\<close> is embedded as a record of its member variables
  and one HOL function per C++ function. Calls into external libraries (FFmpeg,
  DirectXTex, the producer's callback, the C++ runtime) cannot be computed from the
  state: their outcomes are inputs of the model (\<open>worker_io\<close> for the worker thread,
  \<open>call_env\<close> for the calling thread), and the calls themselves are appended to the
  field \<open>out\<close> in program order, interleaved with the lines written to \<open>wcerr\<close> and
  \<open>wclog\<close>. The model is of the program compiled without assertions (\<open>NDEBUG\<close>), and
  a callback that returns is taken to return a frame handle, never a null pointer.
\<close>

datatype RecordMode = STOPPED | LOW_FPS | HIGH_FPS

datatype Status = OK | RETRY | CLEAN

text \<open>\<open>Codec\<close> is an enum class: \<open>FindEncoder\<close> has a default branch for any other value.\<close>

datatype Codec = H264 | HEVC | OtherCodec

text \<open>
  The macro listing the presets is not part of the sources at hand. \<open>Listed n\<close> is an
  enumerator for which \<open>EncodePreset_2_Str\<close> returns the name \<open>n\<close>, \<open>Unlisted\<close> any
  value for which it returns \<open>nullptr\<close>.
\<close>

datatype Preset = Default | Listed string | Unlisted

datatype FrameFormat = B8G8R8A8 | R10G10B10A2

datatype AVPixelFormat = AV_PIX_FMT_YUV420P | AV_PIX_FMT_YUV420P10

text \<open>The four message prefixes passed to \<open>Error(const std::exception &, ...)\<close>.\<close>

datatype prefix = SampleFail | StartFail | StopFail | ScreenshotFail

text \<open>Lines written to the log streams; each constructor is one line of the source.\<close>

datatype msg =
    EncoderSendFail bool        \<comment> \<open>"Fail to send frame to / flush the encoder"; True = a frame was sent\<close>
  | WriteDataFail               \<comment> \<open>"Fail to write video data to file"\<close>
  | ReceivePacketFail           \<comment> \<open>"Fail to receive packet from the encoder"\<close>
  | SubmitError prefix bool     \<comment> \<open>line of \<open>Error\<close>; True = followed by " Try again..."\<close>
  | InvalidFrame                \<comment> \<open>"Invalid frame occured. Skipping it."\<close>
  | SavingScreenshot string     \<comment> \<open>"Saving screenshot ..."\<close>
  | ScreenshotSaved string      \<comment> \<open>"Screenshot ... has been saved."\<close>
  | ScreenshotError string      \<comment> \<open>"Fail to save screenshot ..."\<close>
  | ConvertFail                 \<comment> \<open>"Fail to convert frame for video (hr=...)."\<close>
  | ScaleContextFail            \<comment> \<open>"Fail to convert frame for video."\<close>
  | MakeWritableFail            \<comment> \<open>"Fail to prepare video frame for writing"\<close>
  | StartWithoutStop            \<comment> \<open>"Starting new video record session without stopping previouse one."\<close>
  | Thrown string               \<comment> \<open>the \<open>const char *\<close> caught at the end of the start task\<close>
  | InitCodecFail               \<comment> \<open>"Fail to init codec for video"\<close>
  | SetCrfFail
  | SetPresetFail
  | InvalidPreset
  | RecordingVideo string nat   \<comment> \<open>"Recording video ... (using n threads for encoding)..."\<close>
  | OpenCodecFail
  | AllocFrameFail
  | AllocFrameDataFail
  | InitOutputFail
  | AddStreamFail
  | CodecParametersFail
  | CreateFileFail
  | WriteHeaderFail
  | StopWithoutStart            \<comment> \<open>"Stopping video record without matched start."\<close>
  | WriteTrailerFail
  | FlushFileFail               \<comment> \<open>"Fail to flush trailing video data to file"\<close>
  | VideoRecorded               \<comment> \<open>"Video has been recorded."\<close>
  | RecordFail                  \<comment> \<open>"Fail to record video."\<close>

datatype event =
    Cerr msg
  | Clog msg
  | RequestFrame int "string list"  \<comment> \<open>\<open>RequestFrameCallback\<close> invoked with pending frames and paths\<close>
  | SaveImage string                \<comment> \<open>one screenshot is written: \<open>SaveToDDSFile\<close>, \<open>SaveToTGAFile\<close> or \<open>SaveToWICFile\<close>\<close>
  | SendFrame bool                  \<comment> \<open>\<open>avcodec_send_frame\<close>; False = null frame (flush)\<close>
  | WritePacket                     \<comment> \<open>\<open>av_interleaved_write_frame\<close>\<close>
  | AllocOutputContext string       \<comment> \<open>\<open>avformat_alloc_output_context2\<close> succeeded\<close>
  | FreeOutputContext               \<comment> \<open>\<open>avformat_free_context\<close>, the deleter of \<open>videoFile\<close>\<close>
  | AvioOpen                        \<comment> \<open>\<open>avio_open\<close> succeeded\<close>
  | AvioClose                       \<comment> \<open>\<open>avio_closep\<close> on an open file\<close>
  | WriteHeader                     \<comment> \<open>\<open>avformat_write_header\<close>\<close>
  | WriteTrailer                    \<comment> \<open>\<open>av_write_trailer\<close>\<close>

record AVCodecContext =
  width :: "32 word"
  height :: "32 word"
  time_base_den :: nat
  pix_fmt :: AVPixelFormat
  thread_count :: nat

record AVFrame =
  fformat :: AVPixelFormat
  fwidth :: "32 word"
  fheight :: "32 word"
  pts :: int

record AVFormatContext =
  filename :: string
  pb :: bool          \<comment> \<open>the file is open (\<open>pb\<close> is not null)\<close>

text \<open>
  A frame handle. The object is shared between the producer and the queue, so frames
  live in a store indexed by their identity and tasks hold the identity.
\<close>

record CFrame =
  fscreenshotPaths :: "string list"
  videoPendingFrames :: int
  ready :: bool

record start_args =
  sfilename :: string
  swidth :: "32 word"
  sheight :: "32 word"
  codecID :: Codec
  crf :: int
  preset :: Preset
  tenbit :: bool
  shighFPS :: bool

datatype task =
    CFrameTask nat
  | CStartVideoRecordRequest start_args bool   \<comment> \<open>the arguments and \<open>matchedStop\<close>\<close>
  | CStopVideoRecordRequest bool

record recorder =
  avcontext :: "AVCodecContext option"
  dstFrame :: "AVFrame option"
  nextFrame :: int                    \<comment> \<open>the tick count of the time point, a \<open>clock::rep\<close>\<close>
  videoFile :: "AVFormatContext option"
  screenshotPaths :: "string list"
  taskQueue :: "task list"
  finish :: bool
  status :: Status
  recordMode :: RecordMode
  frames :: "nat \<Rightarrow> CFrame option"
  out :: "event list"

text \<open>
  How a call ends: normally, in \<open>abort()\<close> after a \<open>std::system_error\<close>, in undefined
  behaviour (a null pointer is dereferenced), or blocked on the condition variable.
\<close>

datatype 'a res = Done 'a | Aborted | Undefined | Waits

definition say :: "event \<Rightarrow> recorder \<Rightarrow> recorder" where
  "say e s = s\<lparr>out := out s @ [e]\<rparr>"

definition says :: "event list \<Rightarrow> recorder \<Rightarrow> recorder" where
  "says es s = s\<lparr>out := out s @ es\<rparr>"

section \<open>The worker's side\<close>

text \<open>Outcome of one call of \<open>Encode()\<close>, with the number of packets written before it ends.\<close>

datatype encode_io =
    EncodeOK nat          \<comment> \<open>n packets written, then EAGAIN or EOF\<close>
  | SendFails             \<comment> \<open>\<open>avcodec_send_frame\<close> fails\<close>
  | WriteFails nat        \<comment> \<open>n packets written, the next write fails\<close>
  | ReceiveFails nat      \<comment> \<open>n packets written, then \<open>avcodec_receive_packet\<close> fails\<close>

record worker_io =
  pixels :: bool                    \<comment> \<open>\<open>GetFrameData().pixels\<close> is not null\<close>
  format :: FrameFormat
  save_ok :: "nat \<Rightarrow> bool"          \<comment> \<open>the k-th screenshot of the task is saved without exception\<close>
  convert_ok :: bool                \<comment> \<open>\<open>DirectX::Convert\<close>\<close>
  sws_ok :: bool                    \<comment> \<open>\<open>sws_getCachedContext\<close> returns a context\<close>
  writable_ok :: "nat \<Rightarrow> bool"      \<comment> \<open>\<open>av_frame_make_writable\<close> in the k-th iteration\<close>
  encode :: "nat \<Rightarrow> encode_io"      \<comment> \<open>the k-th call of \<open>Encode\<close> in the task\<close>
  find_encoder_ok :: bool
  alloc_context_ok :: bool
  hardware_concurrency :: nat
  set_crf_ok :: bool
  set_preset_ok :: bool
  open_codec_ok :: bool
  alloc_frame_ok :: bool
  frame_buffer_ok :: bool
  alloc_output_ok :: bool
  new_stream_ok :: bool
  codecpar_ok :: bool
  avio_open_ok :: bool
  write_header_ok :: bool
  write_trailer_ok :: bool
  avio_close_ok :: bool

text \<open>
  \<open>bool CVideoRecorder::Encode()\<close>: its result, the calls and lines it produces (the
  flag says whether \<open>dstFrame\<close> is set), and the function itself.
\<close>

definition Encode_ok :: "encode_io \<Rightarrow> bool" where
  "Encode_ok e = (case e of EncodeOK n \<Rightarrow> True | _ \<Rightarrow> False)"

definition Encode_out :: "bool \<Rightarrow> encode_io \<Rightarrow> event list" where
  "Encode_out has_frame e =
     SendFrame has_frame #
       (case e of
          SendFails \<Rightarrow> [Cerr (EncoderSendFail has_frame)]
        | WriteFails n \<Rightarrow> replicate (Suc n) WritePacket @ [Cerr WriteDataFail]
        | ReceiveFails n \<Rightarrow> replicate n WritePacket @ [Cerr ReceivePacketFail]
        | EncodeOK n \<Rightarrow> replicate n WritePacket)"

definition Encode :: "encode_io \<Rightarrow> recorder \<Rightarrow> bool \<times> recorder" where
  "Encode e s = (Encode_ok e, says (Encode_out (dstFrame s \<noteq> None) e) s)"

text \<open>
  \<open>void CVideoRecorder::Cleanup()\<close>. The function reads \<open>videoFile->pb\<close> without testing
  \<open>videoFile\<close>: with no output context that is a null pointer dereference.
\<close>

definition Cleanup :: "recorder \<Rightarrow> recorder res" where
  "Cleanup s =
     (let s1 = s\<lparr>avcontext := None, dstFrame := None\<rparr> in
      case videoFile s1 of
        None \<Rightarrow> Undefined
      | Some vf \<Rightarrow>
          Done ((says ((if pb vf then [AvioClose] else []) @ [FreeOutputContext]) s1)
                  \<lparr>videoFile := None\<rparr>))"

text \<open>\<open>CStopVideoRecordRequest::operator ()\<close>\<close>

definition Stop_call :: "bool \<Rightarrow> worker_io \<Rightarrow> recorder \<Rightarrow> recorder res" where
  "Stop_call matchedStart io s0 =
     (let s = says (if \<not> matchedStart then [Cerr StopWithoutStart] else []) s0 in
      case videoFile s of
        None \<Rightarrow> Done s
      | Some vf \<Rightarrow>
          (let (ok1, s1) = Encode (encode io 0) s;
               s2 = says (WriteTrailer
                          # (if write_trailer_ok io then [] else [Cerr WriteTrailerFail])) s1;
               s3 = (says ((if pb vf then [AvioClose] else [])
                           @ (if avio_close_ok io then [] else [Cerr FlushFileFail])) s2)
                      \<lparr>videoFile := Some (vf\<lparr>pb := False\<rparr>)\<rparr>;
               ok = (ok1 \<and> write_trailer_ok io \<and> avio_close_ok io)
           in case Cleanup s3 of
                Done s4 \<Rightarrow> Done (say (if ok then Clog VideoRecorded else Cerr RecordFail) s4)
              | r \<Rightarrow> r))"

text \<open>
  \<open>CFrameTask::operator ()\<close>. The screenshot loop: every path is announced, a save is
  attempted, and either the success line or the error line follows; an exception of one
  save is caught inside the loop body.
\<close>

fun save_screenshots :: "worker_io \<Rightarrow> nat \<Rightarrow> string list \<Rightarrow> event list" where
  "save_screenshots io k [] = []"
| "save_screenshots io k (p # ps) =
     [Clog (SavingScreenshot p), SaveImage p,
      (if save_ok io k then Clog (ScreenshotSaved p) else Cerr (ScreenshotError p))]
     @ save_screenshots io (Suc k) ps"

definition set_pending :: "nat \<Rightarrow> int \<Rightarrow> recorder \<Rightarrow> recorder" where
  "set_pending fid n s =
     (case frames s fid of
        None \<Rightarrow> s
      | Some fr \<Rightarrow> s\<lparr>frames := (frames s)(fid \<mapsto> fr\<lparr>videoPendingFrames := n\<rparr>)\<rparr>)"

text \<open>
  The \<open>do ... while (--srcFrame->videoPendingFrames)\<close> loop, entered with a positive
  count \<open>Suc n\<close>; \<open>k\<close> counts the iterations made so far. Entered with a negative
  count, which \<open>SampleFrame\<close> produces only when its pacing arithmetic overflows, the
  loop would count down until the signed counter overflows: \<open>FrameTask_call\<close> gives
  \<open>Undefined\<close> there.
\<close>

fun encode_pending :: "worker_io \<Rightarrow> nat \<Rightarrow> nat \<Rightarrow> nat \<Rightarrow> recorder \<Rightarrow> recorder res" where
  "encode_pending io fid k 0 s = Done s"
| "encode_pending io fid k (Suc n) s =
     (if \<not> writable_ok io k then Cleanup (say (Cerr MakeWritableFail) s)
      else
        (let (ok, s1) = Encode (encode io k) s in
         if \<not> ok then Cleanup s1
         else
           (let s2 = s1\<lparr>dstFrame := map_option (\<lambda>f. f\<lparr>pts := pts f + 1\<rparr>) (dstFrame s1)\<rparr>;
                s3 = set_pending fid (int n) s2
            in if n = 0 then Done s3 else encode_pending io fid (Suc k) n s3)))"

definition FrameTask_call :: "nat \<Rightarrow> worker_io \<Rightarrow> recorder \<Rightarrow> recorder res" where
  "FrameTask_call fid io s =
     (case frames s fid of
        None \<Rightarrow> Undefined
      | Some fr \<Rightarrow>
          if \<not> pixels io then Done (say (Cerr InvalidFrame) s)
          else
            (let s1 = (says (save_screenshots io 0 (fscreenshotPaths fr)) s)
                        \<lparr>frames := (frames s)(fid \<mapsto> fr\<lparr>fscreenshotPaths := []\<rparr>)\<rparr>
             in if videoPendingFrames fr \<noteq> 0 \<and> videoFile s1 \<noteq> None then
                  (if format io = R10G10B10A2 \<and> \<not> convert_ok io
                     then Cleanup (say (Cerr ConvertFail) s1)
                   else if \<not> sws_ok io then Cleanup (say (Cerr ScaleContextFail) s1)
                   else if videoPendingFrames fr < 0 then Undefined
                   else encode_pending io fid 0 (nat (videoPendingFrames fr)) s1)
                else Done s1))"

text \<open>
  \<open>CStartVideoRecordRequest::operator ()\<close>: the \<open>try\<close> block first, then the whole call.
  \<open>width & ~1\<close> is computed in \<open>unsigned int\<close> and stored in the \<open>int\<close> field of the
  codec context; the model keeps the 32 bits.
\<close>

definition configure_context :: "start_args \<Rightarrow> worker_io \<Rightarrow> AVCodecContext" where
  "configure_context a io =
     \<lparr>width = swidth a AND NOT 1, height = sheight a AND NOT 1,
      time_base_den = (if shighFPS a then 60 else 30),
      pix_fmt = AV_PIX_FMT_YUV420P,
      thread_count = (if hardware_concurrency io \<noteq> 0 then hardware_concurrency io else 1)\<rparr>"

definition configure_frame :: "start_args \<Rightarrow> AVCodecContext \<Rightarrow> AVFrame" where
  "configure_frame a c =
     \<lparr>fformat = (if tenbit a then AV_PIX_FMT_YUV420P10 else AV_PIX_FMT_YUV420P),
      fwidth = width c, fheight = height c, pts = 0\<rparr>"

text \<open>The lines written while the options are set, up to "Recording video ...".\<close>

definition option_lines :: "start_args \<Rightarrow> worker_io \<Rightarrow> AVCodecContext \<Rightarrow> event list" where
  "option_lines a io c =
     (if crf a \<noteq> - 1 \<and> \<not> set_crf_ok io then [Cerr SetCrfFail] else [])
     @ (case preset a of
          Default \<Rightarrow> []
        | Listed n \<Rightarrow> if set_preset_ok io then [] else [Cerr SetPresetFail]
        | Unlisted \<Rightarrow> [Cerr InvalidPreset])
     @ [Clog (RecordingVideo (sfilename a) (thread_count c))]"

text \<open>
  \<open>parent.videoFile.reset(output)\<close> after \<open>avformat_alloc_output_context2\<close>: the new
  context exists before the deleter frees the one \<open>videoFile\<close> held, if it held one.
\<close>

definition reset_videoFile :: "string \<Rightarrow> recorder \<Rightarrow> recorder" where
  "reset_videoFile n s =
     (says (AllocOutputContext n
            # (case videoFile s of None \<Rightarrow> [] | Some old \<Rightarrow> [FreeOutputContext])) s)
       \<lparr>videoFile := Some \<lparr>filename = n, pb = False\<rparr>\<rparr>"

definition Start_try :: "start_args \<Rightarrow> worker_io \<Rightarrow> recorder \<Rightarrow> recorder res" where
  "Start_try a io s =
     (if codecID a = OtherCodec then Done (say (Cerr (Thrown ''Invalid codec ID'')) s)
      else if \<not> find_encoder_ok io then Done (say (Cerr (Thrown ''Fail to find codec'')) s)
      else if \<not> alloc_context_ok io then Done (say (Cerr InitCodecFail) (s\<lparr>avcontext := None\<rparr>))
      else
       (let c = configure_context a io;
            s4 = says (option_lines a io c) (s\<lparr>avcontext := Some c\<rparr>)
        in if \<not> open_codec_ok io then Cleanup (say (Cerr OpenCodecFail) s4)
           else if \<not> alloc_frame_ok io
             then Cleanup (say (Cerr AllocFrameFail) (s4\<lparr>dstFrame := None\<rparr>))
           else
            (let s5 = s4\<lparr>dstFrame := Some (configure_frame a c)\<rparr>
             in if \<not> frame_buffer_ok io then Cleanup (say (Cerr AllocFrameDataFail) s5)
                else if \<not> alloc_output_ok io then Cleanup (say (Cerr InitOutputFail) s5)
                else
                 (let s6 = reset_videoFile (sfilename a) s5
                  in if \<not> new_stream_ok io then Cleanup (say (Cerr AddStreamFail) s6)
                     else if \<not> codecpar_ok io then Cleanup (say (Cerr CodecParametersFail) s6)
                     else if \<not> avio_open_ok io then Cleanup (say (Cerr CreateFileFail) s6)
                     else
                      (let s7 = (say AvioOpen s6)
                                  \<lparr>videoFile := Some \<lparr>filename = sfilename a, pb = True\<rparr>\<rparr>;
                           s8 = say WriteHeader s7
                       in if \<not> write_header_ok io then Cleanup (say (Cerr WriteHeaderFail) s8)
                          else Done s8)))))"

definition Start_call :: "start_args \<Rightarrow> bool \<Rightarrow> worker_io \<Rightarrow> recorder \<Rightarrow> recorder res" where
  "Start_call a matchedStop io s0 =
     (let s = says (if \<not> matchedStop then [Cerr StartWithoutStop] else []) s0 in
      case (if videoFile s \<noteq> None then Stop_call True io s else Done s) of
        Done s1 \<Rightarrow> Start_try a io s1
      | r \<Rightarrow> r)"

text \<open>\<open>ITask::operator bool\<close> and its override in \<open>CFrameTask\<close>.\<close>

definition task_ready :: "recorder \<Rightarrow> task \<Rightarrow> bool" where
  "task_ready s t =
     (case t of
        CFrameTask fid \<Rightarrow> (case frames s fid of Some fr \<Rightarrow> ready fr | None \<Rightarrow> False)
      | _ \<Rightarrow> True)"

definition task_call :: "task \<Rightarrow> worker_io \<Rightarrow> recorder \<Rightarrow> recorder res" where
  "task_call t io s =
     (case t of
        CFrameTask fid \<Rightarrow> FrameTask_call fid io s
      | CStartVideoRecordRequest a m \<Rightarrow> Start_call a m io s
      | CStopVideoRecordRequest m \<Rightarrow> Stop_call m io s)"

text \<open>
  One iteration of the loop of \<open>CVideoRecorder::Process\<close>: the loop ends, the worker
  waits on the condition variable, or the front task is popped and executed.
\<close>

datatype step = Exited | Waiting | Ran task "recorder res"

definition Process :: "worker_io \<Rightarrow> recorder \<Rightarrow> step" where
  "Process io s =
     (if finish s then Exited
      else case taskQueue s of
             [] \<Rightarrow> Waiting
           | t # ts \<Rightarrow>
               if \<not> task_ready s t then Waiting
               else Ran t (task_call t io (s\<lparr>taskQueue := ts\<rparr>)))"

section \<open>The frame handle\<close>

text \<open>
  \<open>CFrame::Ready\<close> and \<open>CFrame::Cancel\<close>. Taking the mutex may throw
  \<open>std::system_error\<close>, which ends in \<open>abort()\<close>: \<open>lock_ok\<close> says whether it does not.
\<close>

definition Ready :: "bool \<Rightarrow> nat \<Rightarrow> recorder \<Rightarrow> recorder res" where
  "Ready lock_ok fid s =
     (if \<not> lock_ok then Aborted
      else case frames s fid of
             None \<Rightarrow> Undefined
           | Some fr \<Rightarrow> Done (s\<lparr>frames := (frames s)(fid \<mapsto> fr\<lparr>ready := True\<rparr>)\<rparr>))"

text \<open>\<open>std::find_if\<close> followed by \<open>erase\<close> of the element found.\<close>

fun erase_first :: "('a \<Rightarrow> bool) \<Rightarrow> 'a list \<Rightarrow> 'a list" where
  "erase_first P [] = []"
| "erase_first P (x # xs) = (if P x then xs else x # erase_first P xs)"

definition is_task_of :: "nat \<Rightarrow> task \<Rightarrow> bool" where
  "is_task_of fid t = (case t of CFrameTask f \<Rightarrow> f = fid | _ \<Rightarrow> False)"

definition Cancel :: "bool \<Rightarrow> nat \<Rightarrow> recorder \<Rightarrow> recorder res" where
  "Cancel lock_ok fid s =
     (if \<not> lock_ok then Aborted
      else Done (s\<lparr>taskQueue := erase_first (is_task_of fid) (taskQueue s)\<rparr>))"

section \<open>The calling thread\<close>

text \<open>
  What the environment does during one pass through an API function: the value read
  from the steady clock, the frame handle returned by the producer's callback (\<open>None\<close>:
  the callback throws a \<open>std::exception\<close>), the operation of the \<open>try\<close> block that
  throws, and whether the mutex can be taken inside \<open>Error\<close>.
\<close>

datatype fault =
    NoFault
  | AllocThrows     \<comment> \<open>\<open>new\<close> / \<open>make_unique\<close> / \<open>queue::push\<close> throws \<open>std::bad_alloc\<close>\<close>
  | PushThrows      \<comment> \<open>\<open>taskQueue.push_back\<close> throws \<open>std::bad_alloc\<close>\<close>
  | LockThrows      \<comment> \<open>\<open>std::lock_guard\<close> throws \<open>std::system_error\<close>\<close>

record call_env =
  now :: int
  callback :: "nat option"
  fault :: fault
  error_lock_ok :: bool

text \<open>How a \<open>try\<close> block ends: normally, with a \<open>std::system_error\<close>, or with another
  \<open>std::exception\<close> (the state when it is caught).\<close>

datatype 'a attempt = Passed 'a | SystemError | Exception 'a

definition push_back :: "task \<Rightarrow> recorder \<Rightarrow> recorder" where
  "push_back t s = s\<lparr>taskQueue := taskQueue s @ [t]\<rparr>"

text \<open>
  \<open>Error(const std::system_error &)\<close> is \<open>abort()\<close>: the value \<open>Aborted\<close>.
  \<open>Error(const std::exception &, prefix, filename)\<close> first waits until the task queue is
  empty. The model runs one thread at a time, so a call that reaches the wait with tasks
  in the queue does not return: its value is \<open>Waits\<close>.
\<close>

definition Error :: "bool \<Rightarrow> prefix \<Rightarrow> recorder \<Rightarrow> recorder res" where
  "Error lock_ok p s =
     (if \<not> lock_ok then Aborted
      else if taskQueue s \<noteq> [] then Waits
      else
        (let s1 = say (Cerr (SubmitError p (status s = OK))) s in
         case status s of
           OK \<Rightarrow> Done s1
         | RETRY \<Rightarrow> Done s1
         | CLEAN \<Rightarrow>
             (if videoFile s1 \<noteq> None
              then (case Cleanup s1 of Done s2 \<Rightarrow> Done (s2\<lparr>taskQueue := []\<rparr>) | r \<Rightarrow> r)
              else Done s1)))"

subsection \<open>Pacing\<close>

text \<open>
  \<open>clock::rep\<close>, the count of a \<open>std::chrono::steady_clock\<close> duration and of
  \<open>FrameDuration<FPS>\<close>, is a signed 64-bit integer. Counts are integers here and every
  arithmetic operation on them is followed by \<open>wrap64\<close>, the value that two's-complement
  arithmetic leaves when the exact result does not fit. (The language leaves signed
  overflow undefined; the wrapped value is what the compiled arithmetic produces.)
\<close>

definition wrap64 :: "int \<Rightarrow> int" where
  "wrap64 x = (x + 2 ^ 63) mod 2 ^ 64 - 2 ^ 63"

text \<open>Integer division of C++ truncates towards zero.\<close>

definition tdiv :: "int \<Rightarrow> int \<Rightarrow> int" where
  "tdiv a b = sgn a * sgn b * (\<bar>a\<bar> div \<bar>b\<bar>)"

text \<open>
  \<open>std::chrono::duration_cast\<close> between two durations with \<open>clock::rep\<close> counts whose
  periods are \<open>1 / from\<close> and \<open>1 / to\<close> seconds. The library reduces the ratio of the
  two periods to \<open>num / den\<close> and computes \<open>count * num / den\<close> in \<open>clock::rep\<close>: the
  product can overflow, the quotient by a positive \<open>den\<close> cannot. The tick rate \<open>P\<close> of
  \<open>std::chrono::steady_clock\<close> (ticks per second) is a constant of the C++ runtime and a
  parameter here; \<open>FrameDuration<FPS>\<close> has the period \<open>1 / FPS\<close>.
\<close>

definition duration_cast :: "int \<Rightarrow> int \<Rightarrow> int \<Rightarrow> int" where
  "duration_cast from to c =
     (let g = gcd from to; num = to div g; den = from div g
      in tdiv (wrap64 (c * num)) den)"

definition lowFPS :: int where "lowFPS = 30"

definition highFPS :: int where "highFPS = 60"

definition AdvanceFrame :: "int \<Rightarrow> int \<Rightarrow> int \<Rightarrow> recorder \<Rightarrow> recorder \<times> int" where
  "AdvanceFrame P FPS nw s =
     (let delta = wrap64 (duration_cast P FPS (wrap64 (nw - nextFrame s)) + 1)
      in (s\<lparr>nextFrame := wrap64 (nextFrame s + duration_cast FPS P delta)\<rparr>, delta))"

subsection \<open>\<open>SampleFrame\<close>\<close>

text \<open>The constructor \<open>CFrame(Opaque)\<close>, called by the producer inside its callback.\<close>

definition new_frame :: "nat \<Rightarrow> string list \<Rightarrow> int \<Rightarrow> recorder \<Rightarrow> recorder" where
  "new_frame fid paths pending s =
     s\<lparr>frames := (frames s)(fid \<mapsto>
          \<lparr>fscreenshotPaths = paths, videoPendingFrames = pending, ready = False\<rparr>)\<rparr>"

text \<open>
  The \<open>try\<close> block of \<open>SampleFrame\<close>. Building the argument tuple moves
  \<open>screenshotPaths\<close> out of the recorder before the callback is invoked.
\<close>

definition SampleFrame_try :: "call_env \<Rightarrow> int \<Rightarrow> recorder \<Rightarrow> recorder attempt" where
  "SampleFrame_try e pending s =
     (let paths = screenshotPaths s;
          s1 = say (RequestFrame pending paths) (s\<lparr>screenshotPaths := []\<rparr>)
      in case callback e of
           None \<Rightarrow> Exception s1
         | Some fid \<Rightarrow>
             (let s2 = new_frame fid paths pending s1
              in case fault e of
                   AllocThrows \<Rightarrow> Exception s2
                 | LockThrows \<Rightarrow> SystemError
                 | PushThrows \<Rightarrow> Exception s2
                 | NoFault \<Rightarrow> Passed (push_back (CFrameTask fid) s2)))"

function SampleFrame :: "int \<Rightarrow> (nat \<Rightarrow> call_env) \<Rightarrow> nat \<Rightarrow> recorder \<Rightarrow> recorder res" where
  "SampleFrame P env k s =
     (let nextFrameBackup = nextFrame s;
          (s1, pending) =
             (if recordMode s \<noteq> STOPPED \<and> now (env k) \<ge> nextFrame s
              then (case recordMode s of
                      LOW_FPS \<Rightarrow> AdvanceFrame P lowFPS (now (env k)) s
                    | HIGH_FPS \<Rightarrow> AdvanceFrame P highFPS (now (env k)) s
                    | STOPPED \<Rightarrow> (s, 0))
              else (s, 0))
      in if pending \<noteq> 0 \<or> screenshotPaths s1 \<noteq> [] then
           (case SampleFrame_try (env k) pending s1 of
              Passed s2 \<Rightarrow> Done s2
            | SystemError \<Rightarrow> Aborted
            | Exception s2 \<Rightarrow>
                (case Error (error_lock_ok (env k)) SampleFail (s2\<lparr>nextFrame := nextFrameBackup\<rparr>) of
                   Done s3 \<Rightarrow>
                     if status s3 = OK
                     then (case SampleFrame P env (Suc k) (s3\<lparr>status := RETRY\<rparr>) of
                             Done s4 \<Rightarrow> Done (s4\<lparr>status := OK\<rparr>)
                           | r \<Rightarrow> r)
                     else Done s3
                 | r \<Rightarrow> r))
         else Done s1)"
  by pat_completeness auto
termination
  by (relation "measure (\<lambda>(P, env, k, s). if status s = OK then 1 else 0)")
     (auto simp: Error_def SampleFrame_try_def AdvanceFrame_def say_def says_def Cleanup_def
         new_frame_def Let_def
       split: if_splits option.splits fault.splits Status.splits RecordMode.splits res.splits)

subsection \<open>\<open>StartRecord\<close>, \<open>StopRecord\<close> and \<open>Screenshot\<close>\<close>

text \<open>
  The \<open>try\<close> block of \<open>StartRecordImpl\<close>. The constructor of the request moves the
  file name out of the parameter \<open>filename\<close>, which is left empty. The argument of
  \<open>push_back\<close> is a temporary \<open>unique_ptr<ITask>\<close> that takes the request from \<open>task\<close>;
  when \<open>push_back\<close> throws, the temporary deletes the request and \<open>task\<close> is null. An
  exception carries the arguments and the task as the handler finds them.
\<close>

definition StartRecordImpl_try ::
    "call_env \<Rightarrow> start_args \<Rightarrow> task option \<Rightarrow> recorder
      \<Rightarrow> (start_args \<times> task option \<times> recorder) attempt" where
  "StartRecordImpl_try e a task s =
     (if task = None \<and> fault e = AllocThrows then Exception (a, None, s)
      else
        (let (a1, t) = (case task of
                          None \<Rightarrow> (a\<lparr>sfilename := []\<rparr>,
                                   CStartVideoRecordRequest a (recordMode s = STOPPED))
                        | Some t' \<Rightarrow> (a, t'))
         in case fault e of
              LockThrows \<Rightarrow> SystemError
            | PushThrows \<Rightarrow> Exception (a1, None, s)
            | _ \<Rightarrow> Passed (a1, None,
                       (push_back t s)\<lparr>recordMode := (if shighFPS a then HIGH_FPS else LOW_FPS),
                                        nextFrame := now e\<rparr>)))"

function StartRecordImpl ::
    "(nat \<Rightarrow> call_env) \<Rightarrow> nat \<Rightarrow> start_args \<Rightarrow> task option \<Rightarrow> recorder \<Rightarrow> recorder res" where
  "StartRecordImpl env k a task s =
     (case StartRecordImpl_try (env k) a task s of
        Passed (_, _, s1) \<Rightarrow> Done s1
      | SystemError \<Rightarrow> Aborted
      | Exception (a1, task1, s1) \<Rightarrow>
          (case Error (error_lock_ok (env k)) StartFail s1 of
             Done s2 \<Rightarrow>
               if status s2 = OK
               then (case StartRecordImpl env (Suc k) a1 task1 (s2\<lparr>status := RETRY\<rparr>) of
                       Done s3 \<Rightarrow> Done (s3\<lparr>status := OK\<rparr>)
                     | r \<Rightarrow> r)
               else Done s2
           | r \<Rightarrow> r))"
  by pat_completeness auto
termination
  by (relation "measure (\<lambda>(env, k, a, task, s). if status s = OK then 1 else 0)")
     (auto simp: Error_def StartRecordImpl_try_def say_def says_def Cleanup_def Let_def
       split: if_splits option.splits fault.splits Status.splits res.splits prod.splits)

definition StartRecord :: "(nat \<Rightarrow> call_env) \<Rightarrow> start_args \<Rightarrow> recorder \<Rightarrow> recorder res" where
  "StartRecord env a s = StartRecordImpl env 0 a None s"

definition StopRecord_try :: "call_env \<Rightarrow> recorder \<Rightarrow> recorder attempt" where
  "StopRecord_try e s =
     (case fault e of
        AllocThrows \<Rightarrow> Exception s
      | LockThrows \<Rightarrow> SystemError
      | PushThrows \<Rightarrow> Exception s
      | NoFault \<Rightarrow>
          Passed ((push_back (CStopVideoRecordRequest (recordMode s \<noteq> STOPPED)) s)
                    \<lparr>recordMode := STOPPED\<rparr>))"

function StopRecord :: "(nat \<Rightarrow> call_env) \<Rightarrow> nat \<Rightarrow> recorder \<Rightarrow> recorder res" where
  "StopRecord env k s =
     (case StopRecord_try (env k) s of
        Passed s1 \<Rightarrow> Done s1
      | SystemError \<Rightarrow> Aborted
      | Exception s1 \<Rightarrow>
          (case Error (error_lock_ok (env k)) StopFail s1 of
             Done s2 \<Rightarrow>
               if status s2 = OK
               then (case StopRecord env (Suc k) (s2\<lparr>status := CLEAN\<rparr>) of
                       Done s3 \<Rightarrow> Done (s3\<lparr>status := OK\<rparr>)
                     | r \<Rightarrow> r)
               else Done s2
           | r \<Rightarrow> r))"
  by pat_completeness auto
termination
  by (relation "measure (\<lambda>(env, k, s). if status s = OK then 1 else 0)")
     (auto simp: Error_def StopRecord_try_def say_def says_def Cleanup_def Let_def
       split: if_splits option.splits fault.splits Status.splits res.splits)

text \<open>\<open>Screenshot\<close> takes no lock in its \<open>try\<close> block: only \<open>queue::push\<close> can throw.\<close>

definition Screenshot_try :: "call_env \<Rightarrow> string \<Rightarrow> recorder \<Rightarrow> recorder attempt" where
  "Screenshot_try e name s =
     (case fault e of
        AllocThrows \<Rightarrow> Exception s
      | PushThrows \<Rightarrow> Exception s
      | _ \<Rightarrow> Passed (s\<lparr>screenshotPaths := screenshotPaths s @ [name]\<rparr>))"

function Screenshot :: "(nat \<Rightarrow> call_env) \<Rightarrow> nat \<Rightarrow> string \<Rightarrow> recorder \<Rightarrow> recorder res" where
  "Screenshot env k name s =
     (case Screenshot_try (env k) name s of
        Passed s1 \<Rightarrow> Done s1
      | SystemError \<Rightarrow> Aborted
      | Exception s1 \<Rightarrow>
          (case Error (error_lock_ok (env k)) ScreenshotFail s1 of
             Done s2 \<Rightarrow>
               if status s2 = OK
               then (case Screenshot env (Suc k) name (s2\<lparr>status := RETRY\<rparr>) of
                       Done s3 \<Rightarrow> Done (s3\<lparr>status := OK\<rparr>)
                     | r \<Rightarrow> r)
               else Done s2
           | r \<Rightarrow> r))"
  by pat_completeness auto
termination
  by (relation "measure (\<lambda>(env, k, name, s). if status s = OK then 1 else 0)")
     (auto simp: Error_def Screenshot_try_def say_def says_def Cleanup_def Let_def
       split: if_splits option.splits fault.splits Status.splits res.splits)

section \<open>Runs\<close>

text \<open>The recorder after construction.\<close>

definition init :: recorder where
  "init = \<lparr>avcontext = None, dstFrame = None, nextFrame = 0, videoFile = None,
           screenshotPaths = [], taskQueue = [], finish = False, status = OK,
           recordMode = STOPPED, frames = (\<lambda>_. None), out = []\<rparr>"

text \<open>
  A run is a sequence of calls of the public functions, of the frame handles' \<open>Ready\<close>
  and \<open>Cancel\<close>, and of iterations of the worker's loop, each with the behaviour of its
  environment. The calls of one run are executed one after the other.
\<close>

datatype call =
    Call_SampleFrame "nat \<Rightarrow> call_env"
  | Call_StartRecord start_args "nat \<Rightarrow> call_env"
  | Call_StopRecord "nat \<Rightarrow> call_env"
  | Call_Screenshot string "nat \<Rightarrow> call_env"
  | Call_Ready bool nat
  | Call_Cancel bool nat
  | Worker worker_io

definition do_call :: "int \<Rightarrow> call \<Rightarrow> recorder \<Rightarrow> recorder res" where
  "do_call P c s =
     (case c of
        Call_SampleFrame env \<Rightarrow> SampleFrame P env 0 s
      | Call_StartRecord a env \<Rightarrow> StartRecord env a s
      | Call_StopRecord env \<Rightarrow> StopRecord env 0 s
      | Call_Screenshot name env \<Rightarrow> Screenshot env 0 name s
      | Call_Ready l fid \<Rightarrow> Ready l fid s
      | Call_Cancel l fid \<Rightarrow> Cancel l fid s
      | Worker io \<Rightarrow> (case Process io s of Ran t r \<Rightarrow> r | _ \<Rightarrow> Done s))"

fun run :: "int \<Rightarrow> call list \<Rightarrow> recorder \<Rightarrow> recorder res" where
  "run P [] s = Done s"
| "run P (c # cs) s = (case do_call P c s of Done s1 \<Rightarrow> run P cs s1 | r \<Rightarrow> r)"

text \<open>
  Runs of the queue alone: tasks are pushed at the back, frame handles become ready or
  are cancelled, and the worker iterates. The first component of the result lists the
  tasks the worker has executed, in the order of execution.
\<close>

datatype qcall = Push task | QReady nat | QCancel nat | QWork worker_io

fun qrun :: "qcall list \<Rightarrow> recorder \<Rightarrow> task list \<times> recorder res" where
  "qrun [] s = ([], Done s)"
| "qrun (Push t # cs) s = qrun cs (push_back t s)"
| "qrun (QReady fid # cs) s =
     (case Ready True fid s of Done s1 \<Rightarrow> qrun cs s1 | r \<Rightarrow> ([], r))"
| "qrun (QCancel fid # cs) s =
     (case Cancel True fid s of Done s1 \<Rightarrow> qrun cs s1 | r \<Rightarrow> ([], r))"
| "qrun (QWork io # cs) s =
     (case Process io s of
        Ran t (Done s1) \<Rightarrow> (let (ex, r) = qrun cs s1 in (t # ex, r))
      | Ran t r \<Rightarrow> ([t], r)
      | _ \<Rightarrow> qrun cs s)"

fun pushes :: "qcall list \<Rightarrow> task list" where
  "pushes [] = []"
| "pushes (Push t # cs) = t # pushes cs"
| "pushes (_ # cs) = pushes cs"

fun has_cancel :: "qcall list \<Rightarrow> bool" where
  "has_cancel [] = False"
| "has_cancel (QCancel _ # cs) = True"
| "has_cancel (_ # cs) = has_cancel cs"

text \<open>Whether a run contains \<open>Ready\<close> or \<open>Cancel\<close> of the frame handle \<open>fid\<close>.\<close>

fun signals :: "nat \<Rightarrow> qcall list \<Rightarrow> bool" where
  "signals fid [] = False"
| "signals fid (QReady g # cs) = (g = fid \<or> signals fid cs)"
| "signals fid (QCancel g # cs) = (g = fid \<or> signals fid cs)"
| "signals fid (_ # cs) = signals fid cs"

definition final_queue :: "recorder res \<Rightarrow> task list" where
  "final_queue r = (case r of Done s \<Rightarrow> taskQueue s | _ \<Rightarrow> [])"

section \<open>Observations on the output\<close>

text \<open>
  Reading the output from the left with the flag "an output context is allocated":
  \<open>None\<close> if a context is allocated while another one still is, or freed while none is.
\<close>

fun session_scan :: "bool \<Rightarrow> event list \<Rightarrow> bool option" where
  "session_scan b [] = Some b"
| "session_scan b (AllocOutputContext n # es) = (if b then None else session_scan True es)"
| "session_scan b (FreeOutputContext # es) = (if b then session_scan False es else None)"
| "session_scan b (_ # es) = session_scan b es"

text \<open>The same for the file: \<open>avio_open\<close> and \<open>avio_closep\<close>.\<close>

fun file_scan :: "bool \<Rightarrow> event list \<Rightarrow> bool option" where
  "file_scan b [] = Some b"
| "file_scan b (AvioOpen # es) = (if b then None else file_scan True es)"
| "file_scan b (AvioClose # es) = (if b then file_scan False es else None)"
| "file_scan b (_ # es) = file_scan b es"

text \<open>
  The output agrees with the state: read from the start, it never holds two allocated
  output contexts or two open files at once, and it ends with a context allocated exactly
  when \<open>videoFile\<close> is set, and a file open exactly when \<open>videoFile->pb\<close> is.
\<close>

definition file_open :: "recorder \<Rightarrow> bool" where
  "file_open s = (case videoFile s of Some vf \<Rightarrow> pb vf | None \<Rightarrow> False)"

definition sess_ok :: "recorder \<Rightarrow> bool" where
  "sess_ok s = (session_scan False (out s) = Some (videoFile s \<noteq> None)
                \<and> file_scan False (out s) = Some (file_open s))"

text \<open>The paths handed to the image writer, and the codec and container calls.\<close>

fun saved :: "event list \<Rightarrow> string list" where
  "saved [] = []"
| "saved (SaveImage p # es) = p # saved es"
| "saved (_ # es) = saved es"

fun video_io :: "event list \<Rightarrow> event list" where
  "video_io [] = []"
| "video_io (Cerr m # es) = video_io es"
| "video_io (Clog m # es) = video_io es"
| "video_io (RequestFrame n ps # es) = video_io es"
| "video_io (SaveImage p # es) = video_io es"
| "video_io (e # es) = e # video_io es"


text \<open>What the worker's functions leave alone: the fields of the calling thread.\<close>

definition same_caller :: "recorder \<Rightarrow> recorder \<Rightarrow> bool" where
  "same_caller s s' = (taskQueue s' = taskQueue s \<and> status s' = status s
     \<and> recordMode s' = recordMode s \<and> nextFrame s' = nextFrame s
     \<and> screenshotPaths s' = screenshotPaths s \<and> finish s' = finish s)"

text \<open>The frame rate of a recording mode, and when a pass of a \<open>try\<close> block throws.\<close>

definition frame_rate :: "RecordMode \<Rightarrow> int" where
  "frame_rate m = (case m of HIGH_FPS \<Rightarrow> highFPS | _ \<Rightarrow> lowFPS)"

definition throws :: "call_env \<Rightarrow> bool" where
  "throws e = (fault e = AllocThrows \<or> fault e = PushThrows)"

definition sample_throws :: "call_env \<Rightarrow> bool" where
  "sample_throws e = (callback e = None \<or> throws e)"


text \<open>
  The values of \<open>clock::rep\<close>, and a bound under which no step of \<open>AdvanceFrame\<close>
  overflows: the deadline \<open>nf\<close> is a value of \<open>clock::rep\<close>, and the clock reading
  \<open>nw\<close> is far enough from the largest one that the gap in ticks times the frame rate,
  plus one second of ticks, still fits.
\<close>

definition in64 :: "int \<Rightarrow> bool" where
  "in64 x = (- (2 ^ 63) \<le> x \<and> x < 2 ^ 63)"

definition in_range :: "int \<Rightarrow> int \<Rightarrow> int \<Rightarrow> int \<Rightarrow> bool" where
  "in_range P F nf nw = (- (2 ^ 63) \<le> nf \<and> nw + P < 2 ^ 63 \<and> (nw - nf) * F + P < 2 ^ 63)"

text \<open>The pacing step at the head of \<open>SampleFrame\<close>, at the clock reading \<open>nw\<close>.\<close>

definition pacing :: "int \<Rightarrow> int \<Rightarrow> recorder \<Rightarrow> recorder \<times> int" where
  "pacing P nw s =
     (if recordMode s \<noteq> STOPPED \<and> nw \<ge> nextFrame s
      then (case recordMode s of
              LOW_FPS \<Rightarrow> AdvanceFrame P lowFPS nw s
            | HIGH_FPS \<Rightarrow> AdvanceFrame P highFPS nw s
            | STOPPED \<Rightarrow> (s, 0))
      else (s, 0))"

text \<open>An environment in which nothing fails.\<close>

definition env_ok :: "int \<Rightarrow> nat \<Rightarrow> nat \<Rightarrow> call_env" where
  "env_ok t fid k = \<lparr>now = t, callback = Some fid, fault = NoFault, error_lock_ok = True\<rparr>"

definition io_ok :: worker_io where
  "io_ok = \<lparr>pixels = True, format = B8G8R8A8, save_ok = (\<lambda>_. True), convert_ok = True,
            sws_ok = True, writable_ok = (\<lambda>_. True), encode = (\<lambda>_. EncodeOK 1),
            find_encoder_ok = True, alloc_context_ok = True, hardware_concurrency = 4,
            set_crf_ok = True, set_preset_ok = True, open_codec_ok = True,
            alloc_frame_ok = True, frame_buffer_ok = True, alloc_output_ok = True,
            new_stream_ok = True, codecpar_ok = True, avio_open_ok = True,
            write_header_ok = True, write_trailer_ok = True, avio_close_ok = True\<rparr>"

definition args0 :: start_args where
  "args0 = \<lparr>sfilename = ''a.mp4'', swidth = 641, sheight = 481, codecID = H264,
            crf = - 1, preset = Default, tenbit = False, shighFPS = False\<rparr>"

section \<open>Concrete states used in the examples\<close>

definition q0 :: recorder where
  "q0 = init\<lparr>taskQueue := [CFrameTask 0, CStopVideoRecordRequest True],
             frames := (frames init)(0 \<mapsto>
               \<lparr>fscreenshotPaths = [''shot.png''], videoPendingFrames = 0, ready = False\<rparr>)\<rparr>"

definition q0_done :: recorder where
  "q0_done = init\<lparr>taskQueue := [CStopVideoRecordRequest False],
                  frames := (frames init)(0 \<mapsto>
                    \<lparr>fscreenshotPaths = [], videoPendingFrames = 0, ready = True\<rparr>),
                  out := [Clog (SavingScreenshot ''shot.png''), SaveImage ''shot.png'',
                          Clog (ScreenshotSaved ''shot.png'')]\<rparr>"

definition q1 :: recorder where
  "q1 = init\<lparr>taskQueue := [CStopVideoRecordRequest True, CFrameTask 0, CStopVideoRecordRequest False],
             frames := (frames init)(0 \<mapsto>
               \<lparr>fscreenshotPaths = [], videoPendingFrames = 0, ready = True\<rparr>)\<rparr>"

definition io_null :: worker_io where
  "io_null = io_ok\<lparr>pixels := False\<rparr>"

definition q2 :: recorder where
  "q2 = init\<lparr>taskQueue := [CFrameTask 0],
             frames := (frames init)(0 \<mapsto>
               \<lparr>fscreenshotPaths = [''shot.png''], videoPendingFrames = 0, ready = True\<rparr>)\<rparr>"

definition started :: recorder where
  "started = init\<lparr>recordMode := LOW_FPS,
     avcontext := Some \<lparr>width = 640, height = 480, time_base_den = 30,
                        pix_fmt = AV_PIX_FMT_YUV420P, thread_count = 4\<rparr>,
     dstFrame := Some \<lparr>fformat = AV_PIX_FMT_YUV420P, fwidth = 640, fheight = 480, pts = 0\<rparr>,
     videoFile := Some \<lparr>filename = ''a.mp4'', pb = True\<rparr>,
     out := [Clog (RecordingVideo ''a.mp4'' 4), AllocOutputContext ''a.mp4'', AvioOpen, WriteHeader]\<rparr>"

definition restarted :: recorder where
  "restarted = started\<lparr>nextFrame := 5,
     out := [Clog (RecordingVideo ''a.mp4'' 4), AllocOutputContext ''a.mp4'', AvioOpen, WriteHeader,
             Cerr StartWithoutStop, SendFrame True, WritePacket, WriteTrailer, AvioClose,
             FreeOutputContext, Clog VideoRecorded,
             Clog (RecordingVideo ''a.mp4'' 4), AllocOutputContext ''a.mp4'', AvioOpen,
             WriteHeader]\<rparr>"

definition io_no_codec :: worker_io where
  "io_no_codec = io_ok\<lparr>open_codec_ok := False\<rparr>"

definition env_throws :: "int \<Rightarrow> nat \<Rightarrow> call_env" where
  "env_throws t k = \<lparr>now = t, callback = None, fault = PushThrows, error_lock_ok = True\<rparr>"

definition env_once :: "int \<Rightarrow> nat \<Rightarrow> nat \<Rightarrow> call_env" where
  "env_once t fid k = (if k = 0 then env_throws t k else env_ok t fid k)"

text \<open>A pass of the \<open>try\<close> block of \<open>SampleFrame\<close> that queues its task.\<close>

definition passes :: "call_env \<Rightarrow> bool" where
  "passes e = (callback e \<noteq> None \<and> fault e = NoFault)"

definition rec0 :: recorder where
  "rec0 = init\<lparr>recordMode := LOW_FPS\<rparr>"

definition unsaved :: recorder where
  "unsaved = init\<lparr>frames := (frames init)(0 \<mapsto>
                 \<lparr>fscreenshotPaths = [''shot.png''], videoPendingFrames = 0, ready = True\<rparr>),
               out := [RequestFrame 0 [''shot.png''], Cerr InvalidFrame]\<rparr>"

declare SampleFrame.simps [simp del]
declare StartRecordImpl.simps [simp del]
declare StopRecord.simps [simp del]
declare Screenshot.simps [simp del]

section \<open>Pacing (C1)\<close>

lemma tdiv_nonneg: "0 \<le> a \<Longrightarrow> 0 < b \<Longrightarrow> tdiv a b = a div b"
  by (cases "a = 0") (simp_all add: tdiv_def)



lemma wrap64_id: "- (2 ^ 63) \<le> x \<Longrightarrow> x < 2 ^ 63 \<Longrightarrow> wrap64 x = x"
  by (simp add: wrap64_def)

lemma duration_cast_fits:
  assumes "0 < from" "0 < to" "0 \<le> c" "c * to < 2 ^ 63"
  shows "duration_cast from to c = c * to div from"
proof -
  define g where "g = gcd from to"
  have g: "0 < g" using assms(1) by (simp add: g_def)
  have t: "to = (to div g) * g" and f: "from = (from div g) * g"
    by (simp_all add: g_def)
  have d1: "0 < from div g" using assms(1) g f by (metis zero_less_mult_pos2 mult.commute)
  have n0: "0 \<le> to div g" using assms(2) g by (simp add: pos_imp_zdiv_nonneg_iff)
  have le: "to div g \<le> to" using assms(2) g zdiv_mono2 [of to 1 g] by simp
  have b0: "0 \<le> c * (to div g)" using assms(3) n0 by simp
  have b1: "c * (to div g) \<le> c * to" using assms(3) le by (simp add: mult_left_mono)
  have w: "wrap64 (c * (to div g)) = c * (to div g)"
    using b0 b1 assms(4) by (intro wrap64_id) simp_all
  have "c * to div from = (c * (to div g) * g) div ((from div g) * g)"
    using t f by (metis mult.assoc)
  also have "\<dots> = c * (to div g) div (from div g)"
    using g by simp
  finally have e: "c * to div from = c * (to div g) div (from div g)" .
  show ?thesis
    by (simp add: duration_cast_def Let_def g_def [symmetric] w tdiv_nonneg [OF b0 d1] e)
qed

text \<open>Within the bound, \<open>AdvanceFrame\<close> computes the exact quotients.\<close>

lemma AdvanceFrame_due:
  assumes "nextFrame s \<le> nw" "0 < P" "0 < F" "in_range P F (nextFrame s) nw"
  shows "AdvanceFrame P F nw s =
           (s\<lparr>nextFrame := nextFrame s + ((nw - nextFrame s) * F div P + 1) * P div F\<rparr>,
            (nw - nextFrame s) * F div P + 1)"
proof -
  define d where "d = nw - nextFrame s"
  define n where "n = d * F div P + 1"
  have lo: "- (2 ^ 63) \<le> nextFrame s" and hi: "nw + P < 2 ^ 63" and m: "d * F + P < 2 ^ 63"
    using assms(4) by (simp_all add: in_range_def d_def)
  have d0: "0 \<le> d" using assms(1) by (simp add: d_def)
  have dF0: "0 \<le> d * F" using d0 assms(3) by simp
  have dF: "d \<le> d * F" using d0 assms(3) by (simp add: mult_le_cancel_left1)
  have wd: "wrap64 d = d" using d0 dF m assms(2) by (intro wrap64_id) simp_all
  have c1: "duration_cast P F d = d * F div P"
    using assms(2,3) d0 m by (intro duration_cast_fits) simp_all
  have q0: "0 \<le> d * F div P" using dF0 assms(2) by (simp add: pos_imp_zdiv_nonneg_iff)
  have q1: "d * F div P \<le> d * F" using dF0 assms(2) zdiv_mono2 [of "d * F" 1 P] by simp
  have wn: "wrap64 (d * F div P + 1) = n"
    unfolding n_def using q0 q1 m assms(2) by (intro wrap64_id) simp_all
  have n0: "0 \<le> n" using q0 by (simp add: n_def)
  have "d * F div P * P \<le> d * F"
    using div_mult_mod_eq [of "d * F" P] pos_mod_sign [OF assms(2), of "d * F"] by linarith
  hence nP: "n * P \<le> d * F + P" by (simp add: n_def algebra_simps)
  have c2: "duration_cast F P n = n * P div F"
    using assms(2,3) n0 nP m by (intro duration_cast_fits) simp_all
  have a0: "0 \<le> n * P div F" using n0 assms(2,3) by (simp add: pos_imp_zdiv_nonneg_iff)
  have "n * P div F \<le> (d * F + P) div F" by (rule zdiv_mono1 [OF nP assms(3)])
  also have "\<dots> = d + P div F" using assms(3) by simp
  also have "\<dots> \<le> d + P" using assms(2,3) zdiv_mono2 [of P 1 F] by simp
  finally have a1: "n * P div F \<le> d + P" .
  have wa: "wrap64 (nextFrame s + n * P div F) = nextFrame s + n * P div F"
    using lo hi a0 a1 by (intro wrap64_id) (simp_all add: d_def)
  show ?thesis
    by (simp add: AdvanceFrame_def Let_def d_def [symmetric] wd c1 wn c2 wa)
       (simp add: n_def)
qed

text \<open>
  A count of zero leaves the deadline where it is, whatever the gap: the advance is the
  cast of zero frames.
\<close>

lemma AdvanceFrame_zero:
  assumes "snd (AdvanceFrame P F nw s) = 0" and "in64 (nextFrame s)"
  shows "fst (AdvanceFrame P F nw s) = s"
proof -
  have z: "duration_cast F P 0 = 0"
    by (simp add: duration_cast_def wrap64_def tdiv_def Let_def)
  have w: "wrap64 (nextFrame s) = nextFrame s"
    using assms(2) by (simp add: in64_def wrap64_id)
  from assms(1) show ?thesis
    by (simp add: AdvanceFrame_def Let_def z w)
qed

lemma frame_rate_pos: "0 < frame_rate m"
  by (cases m) (simp_all add: frame_rate_def lowFPS_def highFPS_def)

text \<open>The pacing step of \<open>SampleFrame\<close> when a sample is due.\<close>

lemma pacing_due:
  assumes "recordMode s \<noteq> STOPPED" and "nextFrame s \<le> nw" and "0 < P"
    and "in_range P (frame_rate (recordMode s)) (nextFrame s) nw"
  shows "(if recordMode s \<noteq> STOPPED \<and> nextFrame s \<le> nw
          then (case recordMode s of
                  LOW_FPS \<Rightarrow> AdvanceFrame P lowFPS nw s
                | HIGH_FPS \<Rightarrow> AdvanceFrame P highFPS nw s
                | STOPPED \<Rightarrow> (s, 0))
          else (s, 0))
         = (s\<lparr>nextFrame := nextFrame s
                 + ((nw - nextFrame s) * frame_rate (recordMode s) div P + 1) * P
                     div frame_rate (recordMode s)\<rparr>,
            (nw - nextFrame s) * frame_rate (recordMode s) div P + 1)"
  using assms(1,2,4) AdvanceFrame_due [OF assms(2) assms(3), of lowFPS]
    AdvanceFrame_due [OF assms(2) assms(3), of highFPS]
  by (cases "recordMode s") (simp_all add: frame_rate_def lowFPS_def highFPS_def)

lemma pending_pos:
  assumes "nextFrame s \<le> nw" and "0 < P"
  shows "1 \<le> (nw - nextFrame s) * frame_rate (recordMode s) div P + 1"
proof -
  have "0 \<le> (nw - nextFrame s) * frame_rate (recordMode s)"
    using assms(1) frame_rate_pos [of "recordMode s"] by simp
  then show ?thesis using assms(2) by (simp add: pos_imp_zdiv_nonneg_iff)
qed



text \<open>
  One second after the deadline at 30 frames per second, on a clock counting
  nanoseconds: 31 frames are pending, where the ceiling of the gap times the rate is 30.
  The gap is far inside the bound.
\<close>

lemma gcd_ns_30: "gcd (1000000000::int) 30 = 10" "gcd (30::int) 1000000000 = 10"
  by code_simp+


text \<open>
  Outside the bound the product of the cast overflows. A gap of \<open>4 \<cdot> 10\<^sup>1\<^sup>8\<close> nanoseconds
  at 30 frames per second gives a negative count, and the deadline moves backwards.
\<close>

lemma AdvanceFrame_overflow:
  "AdvanceFrame 1000000000 lowFPS 4000000000000000000 (init\<lparr>recordMode := LOW_FPS\<rparr>)
     = (init\<lparr>recordMode := LOW_FPS, nextFrame := - 2148914691200000000\<rparr>, - 64467440736)
   \<and> \<not> in_range 1000000000 lowFPS 0 4000000000000000000"
  by (simp add: init_def AdvanceFrame_def duration_cast_def tdiv_def wrap64_def gcd_ns_30
      in_range_def lowFPS_def)

section \<open>Facts about the worker\<close>

lemma says_sel [simp]:
  "avcontext (says es s) = avcontext s" "dstFrame (says es s) = dstFrame s"
  "nextFrame (says es s) = nextFrame s" "videoFile (says es s) = videoFile s"
  "screenshotPaths (says es s) = screenshotPaths s" "taskQueue (says es s) = taskQueue s"
  "finish (says es s) = finish s" "status (says es s) = status s"
  "recordMode (says es s) = recordMode s" "frames (says es s) = frames s"
  "out (says es s) = out s @ es"
  by (simp_all add: says_def)

lemma says_Nil [simp]: "says [] s = s"
  by (simp add: says_def)

lemma say_says: "say e s = says [e] s"
  by (simp add: say_def says_def)

lemma say_sel [simp]:
  "avcontext (say e s) = avcontext s" "dstFrame (say e s) = dstFrame s"
  "nextFrame (say e s) = nextFrame s" "videoFile (say e s) = videoFile s"
  "screenshotPaths (say e s) = screenshotPaths s" "taskQueue (say e s) = taskQueue s"
  "finish (say e s) = finish s" "status (say e s) = status s"
  "recordMode (say e s) = recordMode s" "frames (say e s) = frames s"
  "out (say e s) = out s @ [e]"
  by (simp_all add: say_def)

lemma session_scan_append:
  "session_scan b (xs @ ys) = (case session_scan b xs of None \<Rightarrow> None | Some c \<Rightarrow> session_scan c ys)"
  by (induction b xs rule: session_scan.induct) simp_all

lemma file_scan_append:
  "file_scan b (xs @ ys) = (case file_scan b xs of None \<Rightarrow> None | Some c \<Rightarrow> file_scan c ys)"
  by (induction b xs rule: file_scan.induct) simp_all

lemma scan_replicate [simp]:
  "session_scan b (replicate n WritePacket) = Some b" "file_scan b (replicate n WritePacket) = Some b"
  by (induction n) simp_all

lemma scan_Encode_out [simp]:
  "session_scan b (Encode_out h e) = Some b" "file_scan b (Encode_out h e) = Some b"
  by (cases e; simp add: Encode_out_def session_scan_append file_scan_append)+

lemma scan_save_screenshots [simp]:
  "session_scan b (save_screenshots io k ps) = Some b" "file_scan b (save_screenshots io k ps) = Some b"
  by (induction ps arbitrary: k; simp)+

lemma Cleanup_Done:
  "Cleanup s = Done s' \<longleftrightarrow> (\<exists>vf. videoFile s = Some vf \<and>
     s' = (says ((if pb vf then [AvioClose] else []) @ [FreeOutputContext])
             (s\<lparr>avcontext := None, dstFrame := None\<rparr>))\<lparr>videoFile := None\<rparr>)"
  by (auto simp: Cleanup_def Let_def split: option.splits)

lemma Cleanup_keeps: "Cleanup s = Done s' \<Longrightarrow> same_caller s s' \<and> frames s' = frames s \<and> videoFile s' = None"
  by (auto simp: Cleanup_Done same_caller_def)

lemma Cleanup_sess: "Cleanup s = Done s' \<Longrightarrow> sess_ok s \<Longrightarrow> sess_ok s'"
  by (auto simp: Cleanup_Done sess_ok_def file_open_def session_scan_append file_scan_append)

lemma Stop_call_keeps: "Stop_call m io s = Done s' \<Longrightarrow> same_caller s s' \<and> frames s' = frames s \<and> videoFile s' = None"
  by (auto simp: Stop_call_def Encode_def Let_def same_caller_def Cleanup_Done
      split: option.splits res.splits)

lemma Stop_call_sess: "Stop_call m io s = Done s' \<Longrightarrow> sess_ok s \<Longrightarrow> sess_ok s'"
  by (auto simp: Stop_call_def Encode_def Let_def Cleanup_Done sess_ok_def file_open_def
      session_scan_append file_scan_append
      split: option.splits res.splits)

lemma scan_option_lines [simp]:
  "session_scan b (option_lines a io c) = Some b" "file_scan b (option_lines a io c) = Some b"
  by (auto simp: option_lines_def session_scan_append file_scan_append split: Preset.splits)

lemma reset_videoFile_sel [simp]:
  "avcontext (reset_videoFile n s) = avcontext s" "dstFrame (reset_videoFile n s) = dstFrame s"
  "nextFrame (reset_videoFile n s) = nextFrame s"
  "videoFile (reset_videoFile n s) = Some \<lparr>filename = n, pb = False\<rparr>"
  "screenshotPaths (reset_videoFile n s) = screenshotPaths s" "taskQueue (reset_videoFile n s) = taskQueue s"
  "finish (reset_videoFile n s) = finish s" "status (reset_videoFile n s) = status s"
  "recordMode (reset_videoFile n s) = recordMode s" "frames (reset_videoFile n s) = frames s"
  "out (reset_videoFile n s) = out s @ AllocOutputContext n # (case videoFile s of None \<Rightarrow> [] | Some old \<Rightarrow> [FreeOutputContext])"
  by (simp_all add: reset_videoFile_def)

lemma Start_try_keeps_aux:
  "case Start_try a io s of Done s' \<Rightarrow> same_caller s s' \<and> frames s' = frames s | _ \<Rightarrow> True"
  by (simp add: Start_try_def Let_def same_caller_def Cleanup_def split: option.split)

lemma Start_try_keeps: "Start_try a io s = Done s' \<Longrightarrow> same_caller s s' \<and> frames s' = frames s"
  using Start_try_keeps_aux [where a = a and io = io and s = s] by simp

lemma Start_try_sess_aux:
  "videoFile s = None \<Longrightarrow> sess_ok s \<Longrightarrow>
     (case Start_try a io s of Done s' \<Rightarrow> sess_ok s' | _ \<Rightarrow> True)"
  by (simp add: Start_try_def Let_def Cleanup_def sess_ok_def file_open_def
      session_scan_append file_scan_append)

lemma Start_try_sess:
  "Start_try a io s = Done s' \<Longrightarrow> videoFile s = None \<Longrightarrow> sess_ok s \<Longrightarrow> sess_ok s'"
  using Start_try_sess_aux [where a = a and io = io and s = s] by simp


lemma same_caller_refl [simp]: "same_caller s s"
  by (simp add: same_caller_def)

lemma same_caller_trans: "same_caller s s1 \<Longrightarrow> same_caller s1 s2 \<Longrightarrow> same_caller s s2"
  by (simp add: same_caller_def)

lemma same_caller_says [simp]: "same_caller s (says es s)" "same_caller s (say e s)"
  by (simp_all add: same_caller_def)

lemma sess_ok_says:
  "(\<And>b. session_scan b es = Some b) \<Longrightarrow> (\<And>b. file_scan b es = Some b) \<Longrightarrow>
     sess_ok (says es s) = sess_ok s"
  by (auto simp: sess_ok_def file_open_def session_scan_append file_scan_append split: option.splits)

lemma sess_ok_say_Cerr [simp]: "sess_ok (say (Cerr m) s) = sess_ok s" "sess_ok (say (Clog m) s) = sess_ok s"
  by (simp_all add: say_says sess_ok_says)

lemma Start_call_keeps: "Start_call a m io s = Done s' \<Longrightarrow> same_caller s s' \<and> frames s' = frames s"
proof -
  assume a: "Start_call a m io s = Done s'"
  define s0 where "s0 = says (if \<not> m then [Cerr StartWithoutStop] else []) s"
  have k0: "same_caller s s0 \<and> frames s0 = frames s" by (simp add: s0_def)
  show ?thesis
  proof (cases "videoFile s0")
    case None
    with a have "Start_try a io s0 = Done s'" by (simp add: Start_call_def s0_def)
    from Start_try_keeps [OF this] k0 show ?thesis by (auto intro: same_caller_trans)
  next
    case (Some vf)
    with a obtain s1 where st: "Stop_call True io s0 = Done s1" and tr: "Start_try a io s1 = Done s'"
      by (auto simp: Start_call_def s0_def split: res.splits)
    from Stop_call_keeps [OF st] Start_try_keeps [OF tr] k0 show ?thesis
      by (auto intro: same_caller_trans)
  qed
qed

lemma Start_call_sess: "Start_call a m io s = Done s' \<Longrightarrow> sess_ok s \<Longrightarrow> sess_ok s'"
proof -
  assume a: "Start_call a m io s = Done s'" and i: "sess_ok s"
  define s0 where "s0 = says (if \<not> m then [Cerr StartWithoutStop] else []) s"
  have i0: "sess_ok s0"
    using i by (simp add: s0_def sess_ok_says)
  show ?thesis
  proof (cases "videoFile s0")
    case None
    with a have "Start_try a io s0 = Done s'" by (simp add: Start_call_def s0_def)
    from Start_try_sess [OF this None i0] show ?thesis .
  next
    case (Some vf)
    with a obtain s1 where st: "Stop_call True io s0 = Done s1" and tr: "Start_try a io s1 = Done s'"
      by (auto simp: Start_call_def s0_def split: res.splits)
    from Stop_call_keeps [OF st] have "videoFile s1 = None" by simp
    from Start_try_sess [OF tr this Stop_call_sess [OF st i0]] show ?thesis .
  qed
qed

lemma set_pending_sel [simp]:
  "avcontext (set_pending fid n s) = avcontext s" "dstFrame (set_pending fid n s) = dstFrame s"
  "nextFrame (set_pending fid n s) = nextFrame s" "videoFile (set_pending fid n s) = videoFile s"
  "screenshotPaths (set_pending fid n s) = screenshotPaths s" "taskQueue (set_pending fid n s) = taskQueue s"
  "finish (set_pending fid n s) = finish s" "status (set_pending fid n s) = status s"
  "recordMode (set_pending fid n s) = recordMode s" "out (set_pending fid n s) = out s"
  by (simp_all add: set_pending_def split: option.splits)

lemma encode_pending_keeps:
  "encode_pending io fid k n s = Done s' \<Longrightarrow> same_caller s s' \<and> (sess_ok s \<longrightarrow> sess_ok s')"
proof (induction io fid k n s rule: encode_pending.induct)
  case (1 io fid k s)
  then show ?case by simp
next
  case (2 io fid k n s)
  show ?case
  proof (cases "writable_ok io k \<and> Encode_ok (encode io k)")
    case False
    with "2.prems" have "Cleanup (say (Cerr MakeWritableFail) s) = Done s'
       \<or> Cleanup (says (Encode_out (dstFrame s \<noteq> None) (encode io k)) s) = Done s'"
      by (auto simp: Encode_def split: if_splits)
    then show ?thesis
      by (auto simp: Cleanup_Done same_caller_def sess_ok_def file_open_def
          session_scan_append file_scan_append)
  next
    case True
    define s1 where "s1 = says (Encode_out (dstFrame s \<noteq> None) (encode io k)) s"
    define s3 where "s3 = set_pending fid (int n)
       (s1\<lparr>dstFrame := map_option (\<lambda>f. f\<lparr>pts := pts f + 1\<rparr>) (dstFrame s1)\<rparr>)"
    have e: "Encode (encode io k) s = (True, s1)"
      using True by (simp add: Encode_def s1_def)
    have k3: "same_caller s s3 \<and> (sess_ok s \<longrightarrow> sess_ok s3)"
      by (simp add: s3_def s1_def same_caller_def sess_ok_def file_open_def
          session_scan_append file_scan_append)
    show ?thesis
    proof (cases "n = 0")
      case True
      with "2.prems" \<open>writable_ok io k \<and> Encode_ok (encode io k)\<close> have "s' = s3"
        by (simp add: e s3_def Let_def)
      with k3 show ?thesis by simp
    next
      case False
      with "2.prems" True have r: "encode_pending io fid (Suc k) n s3 = Done s'"
        by (simp add: e s3_def Let_def)
      have "same_caller s3 s' \<and> (sess_ok s3 \<longrightarrow> sess_ok s')"
        using "2.IH" [OF _ refl e [symmetric] _ refl refl False] r True
        by (simp add: s3_def)
      with k3 show ?thesis by (auto intro: same_caller_trans)
    qed
  qed
qed

lemma Cleanup_both: "Cleanup s = Done s' \<Longrightarrow> same_caller s s' \<and> (sess_ok s \<longrightarrow> sess_ok s')"
  using Cleanup_keeps [of s s'] Cleanup_sess [of s s'] by blast

lemma FrameTask_call_keeps:
  assumes "FrameTask_call fid io s = Done s'"
  shows "same_caller s s' \<and> (sess_ok s \<longrightarrow> sess_ok s')"
proof -
  from assms obtain fr where fr: "frames s fid = Some fr"
    by (auto simp: FrameTask_call_def split: option.splits)
  show ?thesis
  proof (cases "pixels io")
    case False
    with assms fr show ?thesis by (auto simp: FrameTask_call_def)
  next
    case True
    define s1 where "s1 = (says (save_screenshots io 0 (fscreenshotPaths fr)) s)
                        \<lparr>frames := (frames s)(fid \<mapsto> fr\<lparr>fscreenshotPaths := []\<rparr>)\<rparr>"
    have k1: "same_caller s s1 \<and> (sess_ok s \<longrightarrow> sess_ok s1)"
      by (simp add: s1_def same_caller_def sess_ok_def file_open_def
          session_scan_append file_scan_append)
    have "s' = s1 \<or> (\<exists>m. Cleanup (say (Cerr m) s1) = Done s')
        \<or> encode_pending io fid 0 (nat (videoPendingFrames fr)) s1 = Done s'"
      using assms fr True by (auto simp: FrameTask_call_def s1_def Let_def split: if_splits)
    then have "same_caller s1 s' \<and> (sess_ok s1 \<longrightarrow> sess_ok s')"
    proof (elim disjE exE)
      fix m assume "Cleanup (say (Cerr m) s1) = Done s'"
      from Cleanup_both [OF this] show ?thesis by (simp add: same_caller_def)
    qed (auto dest: encode_pending_keeps)
    with k1 show ?thesis by (auto intro: same_caller_trans)
  qed
qed

lemma task_call_keeps:
  "task_call t io s = Done s' \<Longrightarrow> same_caller s s' \<and> (sess_ok s \<longrightarrow> sess_ok s')"
  by (cases t)
     (auto simp: task_call_def dest: FrameTask_call_keeps Start_call_keeps Start_call_sess
        Stop_call_keeps Stop_call_sess)

lemma Process_Ran:
  "Process io s = Ran t r \<longleftrightarrow>
     (\<not> finish s \<and> (\<exists>ts. taskQueue s = t # ts \<and> task_ready s t
        \<and> r = task_call t io (s\<lparr>taskQueue := ts\<rparr>)))"
  by (auto simp: Process_def split: list.splits)

lemma subseq_erase_first: "subseq (erase_first P xs) xs"
  by (induction xs) auto

lemma qrun_fifo:
  "subseq (fst (qrun cs s) @ final_queue (snd (qrun cs s))) (taskQueue s @ pushes cs)"
proof (induction cs arbitrary: s)
  case Nil
  then show ?case by (simp add: final_queue_def)
next
  case (Cons c cs)
  show ?case
  proof (cases c)
    case (Push t)
    with Cons [of "push_back t s"] show ?thesis by (simp add: push_back_def)
  next
    case (QReady fid)
    show ?thesis
    proof (cases "frames s fid")
      case None
      with QReady show ?thesis by (simp add: Ready_def final_queue_def)
    next
      case (Some fr)
      with QReady Cons [of "s\<lparr>frames := (frames s)(fid \<mapsto> fr\<lparr>ready := True\<rparr>)\<rparr>"]
      show ?thesis by (simp add: Ready_def)
    qed
  next
    case (QCancel fid)
    have "subseq (erase_first (is_task_of fid) (taskQueue s) @ pushes cs) (taskQueue s @ pushes cs)"
      by (intro list_emb_append_mono subseq_erase_first) simp
    with QCancel Cons [of "s\<lparr>taskQueue := erase_first (is_task_of fid) (taskQueue s)\<rparr>"]
    show ?thesis by (auto simp: Cancel_def intro: subseq_order.order_trans)
  next
    case (QWork io)
    show ?thesis
    proof (cases "Process io s")
      case Exited
      with QWork Cons [of s] show ?thesis by simp
    next
      case Waiting
      with QWork Cons [of s] show ?thesis by simp
    next
      case (Ran t r)
      then obtain ts where q: "taskQueue s = t # ts" and r: "r = task_call t io (s\<lparr>taskQueue := ts\<rparr>)"
        by (auto simp: Process_Ran)
      show ?thesis
      proof (cases r)
        case (Done s1)
        with r task_call_keeps [of t io "s\<lparr>taskQueue := ts\<rparr>" s1]
        have q1: "taskQueue s1 = ts" by (simp add: same_caller_def)
        from Cons [of s1] q1 show ?thesis
          using QWork Ran Done q by (auto split: prod.splits)
      qed (use QWork Ran q in \<open>simp_all add: final_queue_def\<close>)
    qed
  qed
qed

lemma qrun_fifo_exact:
  "\<not> has_cancel cs \<Longrightarrow> snd (qrun cs s) = Done s' \<Longrightarrow>
     fst (qrun cs s) @ taskQueue s' = taskQueue s @ pushes cs"
proof (induction cs arbitrary: s)
  case Nil
  then show ?case by simp
next
  case (Cons c cs)
  show ?case
  proof (cases c)
    case (Push t)
    with Cons.prems Cons.IH [of "push_back t s"] show ?thesis by (simp add: push_back_def)
  next
    case (QReady fid)
    show ?thesis
    proof (cases "frames s fid")
      case None
      with QReady Cons.prems show ?thesis by (simp add: Ready_def)
    next
      case (Some fr)
      with QReady Cons.prems Cons.IH [of "s\<lparr>frames := (frames s)(fid \<mapsto> fr\<lparr>ready := True\<rparr>)\<rparr>"]
      show ?thesis by (simp add: Ready_def)
    qed
  next
    case (QCancel fid)
    with Cons.prems show ?thesis by simp
  next
    case (QWork io)
    show ?thesis
    proof (cases "Process io s")
      case Exited
      with QWork Cons.prems Cons.IH [of s] show ?thesis by simp
    next
      case Waiting
      with QWork Cons.prems Cons.IH [of s] show ?thesis by simp
    next
      case (Ran t r)
      then obtain ts where q: "taskQueue s = t # ts" and r: "r = task_call t io (s\<lparr>taskQueue := ts\<rparr>)"
        by (auto simp: Process_Ran)
      show ?thesis
      proof (cases r)
        case (Done s1)
        with r task_call_keeps [of t io "s\<lparr>taskQueue := ts\<rparr>" s1]
        have q1: "taskQueue s1 = ts" by (simp add: same_caller_def)
        from Cons.IH [of s1] q1 show ?thesis
          using QWork Ran Done q Cons.prems by (auto split: prod.splits)
      qed (use QWork Ran q Cons.prems in \<open>simp_all\<close>)
    qed
  qed
qed

text \<open>While the front task waits for its frame, nothing is executed.\<close>

lemma qrun_blocked:
  "taskQueue s = CFrameTask fid # ts \<Longrightarrow> frames s fid = Some fr \<Longrightarrow> \<not> ready fr \<Longrightarrow>
     \<not> signals fid cs \<Longrightarrow> fst (qrun cs s) = []"
proof (induction cs arbitrary: s ts)
  case Nil
  then show ?case by simp
next
  case (Cons c cs)
  have w: "\<And>io. Process io s = Waiting \<or> Process io s = Exited"
    using Cons.prems(1,2,3) by (simp add: Process_def task_ready_def)
  show ?case
  proof (cases c)
    case (Push t)
    with Cons.prems Cons.IH [of "push_back t s" "ts @ [t]"] show ?thesis
      by (simp add: push_back_def)
  next
    case (QReady g)
    show ?thesis
    proof (cases "frames s g")
      case None
      with QReady show ?thesis by (simp add: Ready_def)
    next
      case (Some gr)
      with QReady Cons.prems
        Cons.IH [of "s\<lparr>frames := (frames s)(g \<mapsto> gr\<lparr>ready := True\<rparr>)\<rparr>" ts]
      show ?thesis by (simp add: Ready_def)
    qed
  next
    case (QCancel g)
    with Cons.prems
      Cons.IH [of "s\<lparr>taskQueue := erase_first (is_task_of g) (taskQueue s)\<rparr>"
                  "erase_first (is_task_of g) ts"]
    show ?thesis by (simp add: Cancel_def is_task_of_def)
  next
    case (QWork io)
    with w [of io] Cons.prems Cons.IH [of s ts] show ?thesis by auto
  qed
qed

lemma erase_first_absent: "\<forall>x \<in> set xs. \<not> P x \<Longrightarrow> erase_first P xs = xs"
  by (induction xs) auto

lemma erase_first_split:
  "\<forall>x \<in> set pre. \<not> P x \<Longrightarrow> P x \<Longrightarrow> erase_first P (pre @ x # post) = pre @ post"
  by (induction pre) auto

lemma is_task_of_iff: "is_task_of fid t \<longleftrightarrow> t = CFrameTask fid"
  by (cases t) (auto simp: is_task_of_def)

lemma video_io_append: "video_io (xs @ ys) = video_io xs @ video_io ys"
  by (induction xs rule: video_io.induct) simp_all

lemma saved_append: "saved (xs @ ys) = saved xs @ saved ys"
  by (induction xs rule: saved.induct) simp_all

section \<open>Order of execution (C3)\<close>

text \<open>
  C3. The worker executes the front task or nothing: with a front task that is not ready
  it waits, whatever stands behind it; a task it executes is the front task, and the rest
  of the queue stays as it is. Over any run of pushes, \<open>Ready\<close>, \<open>Cancel\<close> and worker
  iterations, the tasks executed followed by the tasks still queued are, in this order, a
  subsequence of the tasks submitted (all of them when nothing is cancelled): no task is
  executed before one queued earlier. While the front task's frame is not ready and
  neither \<open>Ready\<close> nor \<open>Cancel\<close> is called on it, no task is executed at all.
\<close>

theorem C3_fifo:
  "(\<not> finish s \<and> taskQueue s = t # ts \<and> \<not> task_ready s t \<longrightarrow> Process io s = Waiting)
   \<and> (Process io s = Ran t r \<longrightarrow>
        (\<exists>ts. taskQueue s = t # ts \<and> task_ready s t \<and> r = task_call t io (s\<lparr>taskQueue := ts\<rparr>)))
   \<and> subseq (fst (qrun cs s) @ final_queue (snd (qrun cs s))) (taskQueue s @ pushes cs)
   \<and> (\<not> has_cancel cs \<and> snd (qrun cs s) = Done s' \<longrightarrow>
        fst (qrun cs s) @ taskQueue s' = taskQueue s @ pushes cs)
   \<and> (taskQueue s = CFrameTask fid # ts \<and> frames s fid = Some fr \<and> \<not> ready fr
        \<and> \<not> signals fid cs \<longrightarrow> fst (qrun cs s) = [])"
proof (intro conjI impI)
  assume "\<not> finish s \<and> taskQueue s = t # ts \<and> \<not> task_ready s t"
  then show "Process io s = Waiting" by (simp add: Process_def)
next
  assume "Process io s = Ran t r"
  then show "\<exists>ts. taskQueue s = t # ts \<and> task_ready s t \<and> r = task_call t io (s\<lparr>taskQueue := ts\<rparr>)"
    by (auto simp: Process_Ran)
next
  show "subseq (fst (qrun cs s) @ final_queue (snd (qrun cs s))) (taskQueue s @ pushes cs)"
    by (rule qrun_fifo)
next
  assume "\<not> has_cancel cs \<and> snd (qrun cs s) = Done s'"
  then show "fst (qrun cs s) @ taskQueue s' = taskQueue s @ pushes cs"
    by (simp add: qrun_fifo_exact)
next
  assume "taskQueue s = CFrameTask fid # ts \<and> frames s fid = Some fr \<and> \<not> ready fr \<and> \<not> signals fid cs"
  then show "fst (qrun cs s) = []" by (auto intro: qrun_blocked)
qed

text \<open>A frame task in front of a stop task: nothing runs until the frame is ready.\<close>

theorem C3_fifo_witness:
  "Process io_ok q0 = Waiting
   \<and> fst (qrun [QWork io_ok, Push (CStopVideoRecordRequest False), QWork io_ok] q0) = []
   \<and> qrun [QWork io_ok, QReady 0, QWork io_ok, Push (CStopVideoRecordRequest False),
            QWork io_ok] q0
       = ([CFrameTask 0, CStopVideoRecordRequest True], Done q0_done)
   \<and> [CFrameTask 0, CStopVideoRecordRequest True] @ taskQueue q0_done
       = taskQueue q0 @ [CStopVideoRecordRequest False]"
proof -
  let ?cs = "[QWork io_ok, QReady 0, QWork io_ok, Push (CStopVideoRecordRequest False), QWork io_ok]"
  let ?fr = "\<lparr>fscreenshotPaths = [''shot.png''], videoPendingFrames = 0, ready = False\<rparr>"
  have r: "qrun ?cs q0 = ([CFrameTask 0, CStopVideoRecordRequest True], Done q0_done)"
    by (simp add: q0_def q0_done_def init_def Process_def task_ready_def Ready_def task_call_def
      FrameTask_call_def io_ok_def Stop_call_def push_back_def says_def say_def)
  have h: "\<not> finish q0 \<and> taskQueue q0 = CFrameTask 0 # [CStopVideoRecordRequest True]
      \<and> \<not> task_ready q0 (CFrameTask 0) \<and> frames q0 0 = Some ?fr \<and> \<not> ready ?fr"
    by (simp add: q0_def init_def task_ready_def)
  from C3_fifo [where s = q0 and t = "CFrameTask 0" and ts = "[CStopVideoRecordRequest True]"
      and io = io_ok and fid = 0 and fr = ?fr
      and cs = "[QWork io_ok, Push (CStopVideoRecordRequest False), QWork io_ok]"] h
  have a: "Process io_ok q0 = Waiting"
    and b: "fst (qrun [QWork io_ok, Push (CStopVideoRecordRequest False), QWork io_ok] q0) = []"
    by (simp_all only: signals.simps not_False_eq_True simp_thms)
  have r2: "snd (qrun ?cs q0) = Done q0_done" and r1: "fst (qrun ?cs q0) = [CFrameTask 0, CStopVideoRecordRequest True]"
    by (simp_all only: r fst_conv snd_conv)
  have nc: "\<not> has_cancel ?cs" and p: "pushes ?cs = [CStopVideoRecordRequest False]" by simp_all
  from C3_fifo [where s = q0 and cs = ?cs and s' = q0_done] r2 nc
  have "fst (qrun ?cs q0) @ taskQueue q0_done = taskQueue q0 @ pushes ?cs"
    by blast
  then have c: "[CFrameTask 0, CStopVideoRecordRequest True] @ taskQueue q0_done
       = taskQueue q0 @ [CStopVideoRecordRequest False]"
    by (simp only: r1 p)
  from a b r c show ?thesis by (simp only: simp_thms)
qed

section \<open>Cancellation (C4)\<close>

text \<open>
  C4. \<open>Cancel\<close> on a frame handle whose task is in the queue removes the first task of
  that handle and leaves every other task in place; on a handle with no task in the queue
  it changes nothing. After the worker has popped and executed the only task of a handle,
  \<open>Cancel\<close> on the handle changes nothing.
\<close>

theorem C4_cancel:
  "(taskQueue s = pre @ CFrameTask fid # post \<and> CFrameTask fid \<notin> set pre \<longrightarrow>
       Cancel True fid s = Done (s\<lparr>taskQueue := pre @ post\<rparr>))
   \<and> (CFrameTask fid \<notin> set (taskQueue s) \<longrightarrow> Cancel True fid s = Done s)
   \<and> (Process io s = Ran (CFrameTask fid) (Done s') \<and> CFrameTask fid \<notin> set (tl (taskQueue s)) \<longrightarrow>
       Cancel True fid s' = Done s')"
proof (intro conjI impI)
  assume "taskQueue s = pre @ CFrameTask fid # post \<and> CFrameTask fid \<notin> set pre"
  then have "erase_first (is_task_of fid) (taskQueue s) = pre @ post"
    by (auto simp: is_task_of_iff intro!: erase_first_split)
  then show "Cancel True fid s = Done (s\<lparr>taskQueue := pre @ post\<rparr>)"
    by (simp add: Cancel_def)
next
  assume "CFrameTask fid \<notin> set (taskQueue s)"
  then have "erase_first (is_task_of fid) (taskQueue s) = taskQueue s"
    by (intro erase_first_absent) (auto simp: is_task_of_iff)
  then show "Cancel True fid s = Done s" by (simp add: Cancel_def)
next
  assume a: "Process io s = Ran (CFrameTask fid) (Done s') \<and> CFrameTask fid \<notin> set (tl (taskQueue s))"
  then obtain ts where q: "taskQueue s = CFrameTask fid # ts"
    and r: "task_call (CFrameTask fid) io (s\<lparr>taskQueue := ts\<rparr>) = Done s'"
    by (auto simp: Process_Ran)
  from task_call_keeps [OF r] have "taskQueue s' = ts" by (simp add: same_caller_def)
  with a q have "erase_first (is_task_of fid) (taskQueue s') = taskQueue s'"
    by (intro erase_first_absent) (auto simp: is_task_of_iff)
  then show "Cancel True fid s' = Done s'" by (simp add: Cancel_def)
qed

text \<open>A frame task between two stop tasks.\<close>

theorem C4_cancel_witness:
  "Cancel True 0 q1 = Done (q1\<lparr>taskQueue := [CStopVideoRecordRequest True, CStopVideoRecordRequest False]\<rparr>)
   \<and> Cancel True 1 q1 = Done q1
   \<and> Process io_ok (q1\<lparr>taskQueue := [CFrameTask 0, CStopVideoRecordRequest False]\<rparr>)
        = Ran (CFrameTask 0) (Done (q1\<lparr>taskQueue := [CStopVideoRecordRequest False]\<rparr>))
   \<and> Cancel True 0 (q1\<lparr>taskQueue := [CStopVideoRecordRequest False]\<rparr>)
        = Done (q1\<lparr>taskQueue := [CStopVideoRecordRequest False]\<rparr>)"
proof -
  have p: "Process io_ok (q1\<lparr>taskQueue := [CFrameTask 0, CStopVideoRecordRequest False]\<rparr>)
        = Ran (CFrameTask 0) (Done (q1\<lparr>taskQueue := [CStopVideoRecordRequest False]\<rparr>))"
    by (simp add: q1_def init_def Process_def task_ready_def task_call_def FrameTask_call_def
        io_ok_def says_def)
  have h1: "taskQueue q1 = [CStopVideoRecordRequest True] @ CFrameTask 0 # [CStopVideoRecordRequest False]
      \<and> CFrameTask 0 \<notin> set [CStopVideoRecordRequest True]"
    and h2: "CFrameTask 1 \<notin> set (taskQueue q1)"
    and h3: "CFrameTask 0 \<notin> set (tl (taskQueue (q1\<lparr>taskQueue := [CFrameTask 0, CStopVideoRecordRequest False]\<rparr>)))"
    by (simp_all add: q1_def)
  from C4_cancel [where s = q1 and pre = "[CStopVideoRecordRequest True]" and fid = 0
      and post = "[CStopVideoRecordRequest False]"] h1
  have a: "Cancel True 0 q1 = Done (q1\<lparr>taskQueue := [CStopVideoRecordRequest True] @ [CStopVideoRecordRequest False]\<rparr>)"
    by blast
  from C4_cancel [where s = q1 and fid = 1] h2
  have b: "Cancel True 1 q1 = Done q1" by blast
  from C4_cancel [where s = "q1\<lparr>taskQueue := [CFrameTask 0, CStopVideoRecordRequest False]\<rparr>"
      and fid = 0 and io = io_ok and s' = "q1\<lparr>taskQueue := [CStopVideoRecordRequest False]\<rparr>"] p h3
  have c: "Cancel True 0 (q1\<lparr>taskQueue := [CStopVideoRecordRequest False]\<rparr>)
        = Done (q1\<lparr>taskQueue := [CStopVideoRecordRequest False]\<rparr>)" by blast
  from a b c p show ?thesis by simp
qed

section \<open>Frames without pixels (C9)\<close>

text \<open>
  C9. When the worker executes a frame task whose frame data has a null pixel pointer,
  the task writes the line "Invalid frame occured. Skipping it." and returns: no
  screenshot is saved, nothing is encoded, and the paths attached to the frame stay in
  the frame, unsaved.
\<close>

theorem C9_null_pixels:
  assumes "\<not> finish s" and "taskQueue s = CFrameTask fid # ts"
    and "frames s fid = Some fr" and "ready fr" and "\<not> pixels io"
  shows "Process io s = Ran (CFrameTask fid) (Done (say (Cerr InvalidFrame) (s\<lparr>taskQueue := ts\<rparr>)))
     \<and> saved (out (say (Cerr InvalidFrame) (s\<lparr>taskQueue := ts\<rparr>))) = saved (out s)
     \<and> video_io (out (say (Cerr InvalidFrame) (s\<lparr>taskQueue := ts\<rparr>))) = video_io (out s)
     \<and> frames (say (Cerr InvalidFrame) (s\<lparr>taskQueue := ts\<rparr>)) = frames s"
  using assms
  by (simp add: Process_def task_ready_def task_call_def FrameTask_call_def saved_append video_io_append)

text \<open>A ready frame that carries one screenshot path and has no pixels.\<close>

theorem C9_null_pixels_witness:
  "Process io_null q2
     = Ran (CFrameTask 0) (Done (say (Cerr InvalidFrame) (q2\<lparr>taskQueue := []\<rparr>)))
   \<and> saved (out (say (Cerr InvalidFrame) (q2\<lparr>taskQueue := []\<rparr>))) = []
   \<and> frames (say (Cerr InvalidFrame) (q2\<lparr>taskQueue := []\<rparr>)) 0
       = Some \<lparr>fscreenshotPaths = [''shot.png''], videoPendingFrames = 0, ready = True\<rparr>"
  using C9_null_pixels [of q2 0 "[]"
      "\<lparr>fscreenshotPaths = [''shot.png''], videoPendingFrames = 0, ready = True\<rparr>" io_null]
  by (simp add: q2_def init_def io_null_def io_ok_def)

section \<open>Facts about the start and stop tasks\<close>




lemma StartRecord_ok:
  "fault (env 0) = NoFault \<Longrightarrow> StartRecord env a s =
     Done ((push_back (CStartVideoRecordRequest a (recordMode s = STOPPED)) s)
            \<lparr>recordMode := (if shighFPS a then HIGH_FPS else LOW_FPS), nextFrame := now (env 0)\<rparr>)"
  by (simp add: StartRecord_def StartRecordImpl.simps StartRecordImpl_try_def)

section \<open>Even dimensions (C8)\<close>




section \<open>Facts about the calling thread\<close>

lemma sess_ok_caller_upd [simp]:
  "sess_ok (s\<lparr>nextFrame := n\<rparr>) = sess_ok s" "sess_ok (s\<lparr>status := st\<rparr>) = sess_ok s"
  "sess_ok (s\<lparr>screenshotPaths := ps\<rparr>) = sess_ok s" "sess_ok (s\<lparr>taskQueue := q\<rparr>) = sess_ok s"
  "sess_ok (s\<lparr>recordMode := m\<rparr>) = sess_ok s" "sess_ok (s\<lparr>frames := fs\<rparr>) = sess_ok s"
  by (simp_all add: sess_ok_def file_open_def)

lemma sess_ok_say_RequestFrame [simp]: "sess_ok (say (RequestFrame n ps) s) = sess_ok s"
  by (simp add: say_says sess_ok_says)

lemma Error_Done:
  "Error l p s = Done s' \<Longrightarrow> status s' = status s \<and> nextFrame s' = nextFrame s
     \<and> recordMode s' = recordMode s \<and> screenshotPaths s' = screenshotPaths s
     \<and> taskQueue s' = [] \<and> taskQueue s = [] \<and> (sess_ok s \<longrightarrow> sess_ok s')"
  by (cases "status s")
     (auto simp: Error_def Let_def Cleanup_Done sess_ok_def file_open_def
        session_scan_append file_scan_append split: if_splits res.splits)

lemma AdvanceFrame_sel [simp]:
  "out (fst (AdvanceFrame P F nw s)) = out s" "videoFile (fst (AdvanceFrame P F nw s)) = videoFile s"
  "status (fst (AdvanceFrame P F nw s)) = status s" "taskQueue (fst (AdvanceFrame P F nw s)) = taskQueue s"
  "recordMode (fst (AdvanceFrame P F nw s)) = recordMode s"
  "screenshotPaths (fst (AdvanceFrame P F nw s)) = screenshotPaths s"
  "frames (fst (AdvanceFrame P F nw s)) = frames s"
  by (simp_all add: AdvanceFrame_def Let_def)

lemma sess_ok_AdvanceFrame [simp]: "sess_ok (fst (AdvanceFrame P F nw s)) = sess_ok s"
  by (simp add: sess_ok_def file_open_def)

lemma SampleFrame_try_sess:
  "SampleFrame_try e n s = Passed s' \<or> SampleFrame_try e n s = Exception s' \<Longrightarrow> sess_ok s' = sess_ok s"
  by (auto simp: SampleFrame_try_def Let_def new_frame_def push_back_def
      split: option.splits fault.splits)

lemma SampleFrame_sess: "SampleFrame P env k s = Done s' \<Longrightarrow> sess_ok s \<Longrightarrow> sess_ok s'"
proof (induction P env k s arbitrary: s' rule: SampleFrame.induct)
  case (1 P env k s)
  define pr where "pr = (if recordMode s \<noteq> STOPPED \<and> nextFrame s \<le> now (env k)
              then (case recordMode s of
                      LOW_FPS \<Rightarrow> AdvanceFrame P lowFPS (now (env k)) s
                    | HIGH_FPS \<Rightarrow> AdvanceFrame P highFPS (now (env k)) s
                    | STOPPED \<Rightarrow> (s, 0))
              else (s, 0))"
  obtain s1 pending where pc: "(s1, pending) = pr" by (cases pr) simp
  have "sess_ok (fst pr)" using "1.prems"(2) by (simp add: pr_def split: RecordMode.splits)
  with pc have i1: "sess_ok s1" by (metis fst_conv)
  have unf: "SampleFrame P env k s =
     (if pending \<noteq> 0 \<or> screenshotPaths s1 \<noteq> [] then
           (case SampleFrame_try (env k) pending s1 of
              Passed s2 \<Rightarrow> Done s2
            | SystemError \<Rightarrow> Aborted
            | Exception s2 \<Rightarrow>
                (case Error (error_lock_ok (env k)) SampleFail (s2\<lparr>nextFrame := nextFrame s\<rparr>) of
                   Done s3 \<Rightarrow>
                     if status s3 = OK
                     then (case SampleFrame P env (Suc k) (s3\<lparr>status := RETRY\<rparr>) of
                             Done s4 \<Rightarrow> Done (s4\<lparr>status := OK\<rparr>)
                           | r \<Rightarrow> r)
                     else Done s3
                 | r \<Rightarrow> r))
         else Done s1)"
    by (subst SampleFrame.simps) (simp add: pr_def [symmetric] pc [symmetric] Let_def)
  show ?case
  proof (cases "pending \<noteq> 0 \<or> screenshotPaths s1 \<noteq> []")
    case False
    with "1.prems"(1) unf i1 show ?thesis by simp
  next
    case c: True
    show ?thesis
    proof (cases "SampleFrame_try (env k) pending s1")
      case (Passed s2)
      with "1.prems"(1) unf c SampleFrame_try_sess [of "env k" pending s1 s2] i1
      show ?thesis by simp
    next
      case SystemError
      with "1.prems"(1) unf c show ?thesis by simp
    next
      case (Exception s2)
      with SampleFrame_try_sess [of "env k" pending s1 s2] i1 have i2: "sess_ok s2" by simp
      show ?thesis
      proof (cases "Error (error_lock_ok (env k)) SampleFail (s2\<lparr>nextFrame := nextFrame s\<rparr>)")
        case (Done s3)
        from Error_Done [OF Done] i2 have i3: "sess_ok s3" by simp
        show ?thesis
        proof (cases "status s3 = OK")
          case False
          with "1.prems"(1) unf c Exception Done i3 show ?thesis by simp
        next
          case True
          with "1.prems"(1) unf c Exception Done obtain s4
            where r: "SampleFrame P env (Suc k) (s3\<lparr>status := RETRY\<rparr>) = Done s4"
              and s': "s' = s4\<lparr>status := OK\<rparr>"
            by (auto split: res.splits)
          from "1.IH" [OF refl pr_def pc c Exception Done True r] i3 s'
          show ?thesis by simp
        qed
      qed (use "1.prems"(1) unf c Exception in simp_all)
    qed
  qed
qed

lemma StartRecordImpl_try_sess:
  "StartRecordImpl_try e a task s = Passed (a', t', s')
     \<or> StartRecordImpl_try e a task s = Exception (a', t', s')
     \<Longrightarrow> sess_ok s' = sess_ok s"
  by (auto simp: StartRecordImpl_try_def Let_def push_back_def
      split: if_splits fault.splits option.splits)

lemma StartRecordImpl_sess:
  "StartRecordImpl env k a task s = Done s' \<Longrightarrow> sess_ok s \<Longrightarrow> sess_ok s'"
proof (induction env k a task s arbitrary: s' rule: StartRecordImpl.induct)
  case (1 env k a task s)
  note unf = StartRecordImpl.simps [of env k a task s]
  show ?case
  proof (cases "StartRecordImpl_try (env k) a task s")
    case (Passed x)
    obtain a1 task1 s1 where x: "x = (a1, task1, s1)" by (cases x)
    with Passed "1.prems" unf StartRecordImpl_try_sess [of "env k" a task s a1 task1 s1]
    show ?thesis by simp
  next
    case SystemError
    with "1.prems"(1) unf show ?thesis by simp
  next
    case (Exception x)
    obtain a1 task1 s1 where x: "x = (a1, task1, s1)" by (cases x)
    with Exception StartRecordImpl_try_sess [of "env k" a task s a1 task1 s1] "1.prems"(2)
    have i1: "sess_ok s1" by simp
    show ?thesis
    proof (cases "Error (error_lock_ok (env k)) StartFail s1")
      case (Done s2)
      from Error_Done [OF Done] i1 have i2: "sess_ok s2" by simp
      show ?thesis
      proof (cases "status s2 = OK")
        case False
        with "1.prems"(1) unf Exception x Done i2 show ?thesis by simp
      next
        case True
        with "1.prems"(1) unf Exception x Done obtain s3
          where r: "StartRecordImpl env (Suc k) a1 task1 (s2\<lparr>status := RETRY\<rparr>) = Done s3"
            and s': "s' = s3\<lparr>status := OK\<rparr>"
          by (auto split: res.splits)
        from "1.IH" [OF Exception x [symmetric] refl Done True r] i2 s'
        show ?thesis by simp
      qed
    qed (use "1.prems"(1) unf Exception x in simp_all)
  qed
qed

lemma StopRecord_try_sess:
  "StopRecord_try e s = Passed s' \<or> StopRecord_try e s = Exception s' \<Longrightarrow> sess_ok s' = sess_ok s"
  by (auto simp: StopRecord_try_def push_back_def split: fault.splits)

lemma StopRecord_sess: "StopRecord env k s = Done s' \<Longrightarrow> sess_ok s \<Longrightarrow> sess_ok s'"
proof (induction env k s arbitrary: s' rule: StopRecord.induct)
  case (1 env k s)
  note unf = StopRecord.simps [of env k s]
  show ?case
  proof (cases "StopRecord_try (env k) s")
    case (Passed s1)
    with "1.prems" unf StopRecord_try_sess [of "env k" s s1] show ?thesis by simp
  next
    case SystemError
    with "1.prems"(1) unf show ?thesis by simp
  next
    case (Exception s1)
    with StopRecord_try_sess [of "env k" s s1] "1.prems"(2) have i1: "sess_ok s1" by simp
    show ?thesis
    proof (cases "Error (error_lock_ok (env k)) StopFail s1")
      case (Done s2)
      from Error_Done [OF Done] i1 have i2: "sess_ok s2" by simp
      show ?thesis
      proof (cases "status s2 = OK")
        case False
        with "1.prems"(1) unf Exception Done i2 show ?thesis by simp
      next
        case True
        with "1.prems"(1) unf Exception Done obtain s3
          where r: "StopRecord env (Suc k) (s2\<lparr>status := CLEAN\<rparr>) = Done s3"
            and s': "s' = s3\<lparr>status := OK\<rparr>"
          by (auto split: res.splits)
        from "1.IH" [OF Exception Done True r] i2 s' show ?thesis by simp
      qed
    qed (use "1.prems"(1) unf Exception in simp_all)
  qed
qed

lemma Screenshot_try_sess:
  "Screenshot_try e n s = Passed s' \<or> Screenshot_try e n s = Exception s' \<Longrightarrow> sess_ok s' = sess_ok s"
  by (auto simp: Screenshot_try_def split: fault.splits)

lemma Screenshot_sess: "Screenshot env k n s = Done s' \<Longrightarrow> sess_ok s \<Longrightarrow> sess_ok s'"
proof (induction env k n s arbitrary: s' rule: Screenshot.induct)
  case (1 env k n s)
  note unf = Screenshot.simps [of env k n s]
  show ?case
  proof (cases "Screenshot_try (env k) n s")
    case (Passed s1)
    with "1.prems" unf Screenshot_try_sess [of "env k" n s s1] show ?thesis by simp
  next
    case SystemError
    with "1.prems"(1) unf show ?thesis by simp
  next
    case (Exception s1)
    with Screenshot_try_sess [of "env k" n s s1] "1.prems"(2) have i1: "sess_ok s1" by simp
    show ?thesis
    proof (cases "Error (error_lock_ok (env k)) ScreenshotFail s1")
      case (Done s2)
      from Error_Done [OF Done] i1 have i2: "sess_ok s2" by simp
      show ?thesis
      proof (cases "status s2 = OK")
        case False
        with "1.prems"(1) unf Exception Done i2 show ?thesis by simp
      next
        case True
        with "1.prems"(1) unf Exception Done obtain s3
          where r: "Screenshot env (Suc k) n (s2\<lparr>status := RETRY\<rparr>) = Done s3"
            and s': "s' = s3\<lparr>status := OK\<rparr>"
          by (auto split: res.splits)
        from "1.IH" [OF Exception Done True r] i2 s' show ?thesis by simp
      qed
    qed (use "1.prems"(1) unf Exception in simp_all)
  qed
qed

lemma do_call_sess: "do_call P c s = Done s' \<Longrightarrow> sess_ok s \<Longrightarrow> sess_ok s'"
proof (cases c)
  case (Worker io)
  assume a: "do_call P c s = Done s'" and i: "sess_ok s"
  show ?thesis
  proof (cases "Process io s")
    case (Ran t r)
    with a Worker obtain ts where "task_call t io (s\<lparr>taskQueue := ts\<rparr>) = Done s'"
      by (auto simp: do_call_def Process_Ran)
    from task_call_keeps [OF this] i show ?thesis by simp
  qed (use a i Worker in \<open>simp_all add: do_call_def\<close>)
qed (auto simp: do_call_def StartRecord_def Ready_def Cancel_def
       dest: SampleFrame_sess StartRecordImpl_sess StopRecord_sess Screenshot_sess
       split: if_splits option.splits)

lemma run_sess: "run P cs s = Done s' \<Longrightarrow> sess_ok s \<Longrightarrow> sess_ok s'"
proof (induction cs arbitrary: s)
  case Nil
  then show ?case by simp
next
  case (Cons c cs)
  from Cons.prems(1) obtain s1 where d: "do_call P c s = Done s1" and r: "run P cs s1 = Done s'"
    by (auto split: res.splits)
  from Cons.IH [OF r do_call_sess [OF d Cons.prems(2)]] show ?case .
qed

lemma sess_ok_init: "sess_ok init"
  by (simp add: sess_ok_def file_open_def init_def)

lemma Stop_call_open:
  assumes "videoFile s = Some vf"
  shows "\<exists>s1 evs. Stop_call m io s = Done s1 \<and> videoFile s1 = None \<and> out s1 = out s @ evs
           \<and> session_scan True evs = Some False \<and> file_scan (pb vf) evs = Some False"
  using assms
  by (simp add: Stop_call_def Encode_def Cleanup_def Let_def session_scan_append file_scan_append)

section \<open>One session at a time (C2)\<close>

text \<open>
  C2. In every run of the recorder from its initial state (any sequence of the public
  calls, of \<open>Ready\<close> and \<open>Cancel\<close>, and of worker iterations, with any behaviour of the
  environment), the output never shows an output context allocated while another one is
  still allocated, nor a file opened while another one is still open, and a context is
  allocated at the end exactly when \<open>videoFile\<close> is set. A start task that finds
  \<open>videoFile\<close> set first executes a stop task (with \<open>matchedStart\<close> true), which frees
  the output context and resets \<open>videoFile\<close>, and only then runs its own \<open>try\<close> block.
\<close>

theorem C2_one_session:
  "(run P cs init = Done s \<longrightarrow>
      session_scan False (out s) = Some (videoFile s \<noteq> None)
      \<and> file_scan False (out s) = Some (file_open s))
   \<and> (videoFile s0 \<noteq> None \<longrightarrow>
        (\<exists>s1 evs. Stop_call True io (says (if \<not> m then [Cerr StartWithoutStop] else []) s0) = Done s1
           \<and> videoFile s1 = None
           \<and> out s1 = out s0 @ (if \<not> m then [Cerr StartWithoutStop] else []) @ evs
           \<and> session_scan True evs = Some False
           \<and> Start_call a m io s0 = Start_try a io s1))"
proof -
  have a: "session_scan False (out s) = Some (videoFile s \<noteq> None)
      \<and> file_scan False (out s) = Some (file_open s)" if "run P cs init = Done s"
    using run_sess [OF that sess_ok_init] by (simp add: sess_ok_def)
  let ?s = "says (if \<not> m then [Cerr StartWithoutStop] else []) s0"
  have b: "\<exists>s1 evs. Stop_call True io ?s = Done s1 \<and> videoFile s1 = None
           \<and> out s1 = out s0 @ (if \<not> m then [Cerr StartWithoutStop] else []) @ evs
           \<and> session_scan True evs = Some False
           \<and> Start_call a m io s0 = Start_try a io s1" if "videoFile s0 \<noteq> None"
  proof -
    from that obtain vf where vf: "videoFile ?s = Some vf" by auto
    from Stop_call_open [OF vf, of True io] obtain s1 evs
      where st: "Stop_call True io ?s = Done s1" and v1: "videoFile s1 = None"
        and o: "out s1 = out ?s @ evs" and sc: "session_scan True evs = Some False"
      by blast
    have "Start_call a m io s0 = Start_try a io s1"
      using vf st by (simp add: Start_call_def)
    with st v1 o sc show ?thesis by auto
  qed
  from a b show ?thesis by blast
qed

lemma run_restart:
  "run 1 [Call_StartRecord args0 (env_ok 0 0), Worker io_ok,
          Call_StartRecord args0 (env_ok 5 0), Worker io_ok] init = Done restarted"
  by (simp add: do_call_def StartRecord_ok Process_def task_ready_def task_call_def
      Start_call_def Start_try_def Stop_call_def Encode_def Encode_ok_def Encode_out_def
      Cleanup_def init_def args0_def io_ok_def started_def restarted_def env_ok_def
      configure_context_def configure_frame_def option_lines_def reset_videoFile_def Let_def
      push_back_def says_def say_def)

text \<open>Two starts without a stop between them.\<close>

theorem C2_one_session_witness:
  "run 1 [Call_StartRecord args0 (env_ok 0 0), Worker io_ok,
          Call_StartRecord args0 (env_ok 5 0), Worker io_ok] init = Done restarted
   \<and> session_scan False (out restarted) = Some True
   \<and> file_scan False (out restarted) = Some True
   \<and> Start_call args0 False io_ok started = Done (restarted\<lparr>nextFrame := 0\<rparr>)"
proof -
  from C2_one_session [where P = 1 and s = restarted and s0 = started and io = io_ok
      and m = False and a = args0
      and cs = "[Call_StartRecord args0 (env_ok 0 0), Worker io_ok,
                 Call_StartRecord args0 (env_ok 5 0), Worker io_ok]"] run_restart
  have "session_scan False (out restarted) = Some (videoFile restarted \<noteq> None)
        \<and> file_scan False (out restarted) = Some (file_open restarted)" by blast
  moreover have "Start_call args0 False io_ok started = Done (restarted\<lparr>nextFrame := 0\<rparr>)"
    by (simp add: Start_call_def Start_try_def Stop_call_def Encode_def Encode_ok_def Encode_out_def
      Cleanup_def init_def args0_def io_ok_def started_def restarted_def
      configure_context_def configure_frame_def option_lines_def reset_videoFile_def Let_def
      says_def say_def)
  ultimately show ?thesis using run_restart
    by (simp add: restarted_def started_def init_def file_open_def)
qed

section \<open>A start whose codec cannot be opened (C6)\<close>

lemma StopRecord_ok:
  "fault (env k) = NoFault \<Longrightarrow> StopRecord env k s =
     Done ((push_back (CStopVideoRecordRequest (recordMode s \<noteq> STOPPED)) s)\<lparr>recordMode := STOPPED\<rparr>)"
  by (simp add: StopRecord.simps StopRecord_try_def)

text \<open>
  A start task that has found the encoder and allocated the codec context, and whose
  \<open>avcodec_open2\<close> fails, writes "Fail to open codec" and calls \<open>Cleanup\<close>. The task
  has stopped any open session before, so \<open>videoFile\<close> is null there and \<open>Cleanup\<close>
  reads \<open>videoFile->pb\<close> through the null pointer: from no state does the task return.
  The other callers of \<open>Cleanup\<close> (\<open>Error\<close>, the stop task, the frame task) test
  \<open>videoFile\<close> first.
\<close>

lemma Start_call_open_codec_fails:
  assumes "codecID a \<noteq> OtherCodec" and "find_encoder_ok io" and "alloc_context_ok io"
    and "\<not> open_codec_ok io"
  shows "Start_call a m io s = Undefined"
proof -
  let ?s = "says (if \<not> m then [Cerr StartWithoutStop] else []) s"
  have t: "Start_try a io s1 = Undefined" if "videoFile s1 = None" for s1
    using assms that by (simp add: Start_try_def Let_def Cleanup_def)
  show ?thesis
  proof (cases "videoFile ?s")
    case None
    then show ?thesis by (simp add: Start_call_def Let_def t)
  next
    case (Some vf)
    show ?thesis
    proof (cases "Stop_call True io ?s")
      case (Done s1)
      from Stop_call_keeps [OF Done] have "videoFile s1 = None" by simp
      with Some Done show ?thesis by (simp add: Start_call_def Let_def t)
    next
      case Undefined
      with Some show ?thesis by (simp add: Start_call_def Let_def)
    next
      case Aborted
      with Some show ?thesis
        by (simp add: Stop_call_def Let_def Cleanup_def split: prod.splits)
    next
      case Waits
      with Some show ?thesis
        by (simp add: Stop_call_def Let_def Cleanup_def split: prod.splits)
    qed
  qed
qed

text \<open>
  C6 at its own input. \<open>StartRecord\<close> for a 641 by 481 H.264 file on a fresh recorder,
  then \<open>StopRecord\<close>; the worker takes the start task, and \<open>avcodec_open2\<close> fails. The
  claim expects the start task to return with no session and the stop task to run after
  it. In the code the start task does not return: it writes "Fail to open codec" and
  dereferences the null \<open>videoFile\<close> in \<open>Cleanup\<close>, so the run is undefined before the
  stop task is reached, whether or not a stop was requested.
\<close>

theorem C6_codec_open_failure:
  "run 1 [Call_StartRecord args0 (env_ok 0 0), Call_StopRecord (env_ok 0 0),
          Worker io_no_codec, Worker io_ok] init = Undefined
   \<and> run 1 [Call_StartRecord args0 (env_ok 0 0), Worker io_no_codec] init = Undefined
   \<and> Start_try args0 io_no_codec init = Undefined
   \<and> Cleanup (say (Cerr OpenCodecFail)
        (says (option_lines args0 io_no_codec (configure_context args0 io_no_codec))
           (init\<lparr>avcontext := Some (configure_context args0 io_no_codec)\<rparr>))) = Undefined"
  by (simp add: do_call_def StartRecord_ok StopRecord_ok Process_def task_ready_def task_call_def
      Start_call_def Start_try_def Stop_call_def Cleanup_def init_def args0_def io_ok_def
      io_no_codec_def env_ok_def
      configure_context_def option_lines_def Let_def push_back_def says_def say_def)

section \<open>Passes of the public functions\<close>


text \<open>A pass of \<open>SampleFrame\<close> that is due and succeeds.\<close>

lemma SampleFrame_due_ok:
  assumes "recordMode s \<noteq> STOPPED" and "nextFrame s \<le> now (env k)" and "0 < P"
    and "callback (env k) = Some fid" and "fault (env k) = NoFault"
    and "in_range P (frame_rate (recordMode s)) (nextFrame s) (now (env k))"
  shows "SampleFrame P env k s =
      Done (push_back (CFrameTask fid)
        (new_frame fid (screenshotPaths s)
           ((now (env k) - nextFrame s) * frame_rate (recordMode s) div P + 1)
           (say (RequestFrame ((now (env k) - nextFrame s) * frame_rate (recordMode s) div P + 1)
                   (screenshotPaths s))
              (s\<lparr>nextFrame := nextFrame s
                     + ((now (env k) - nextFrame s) * frame_rate (recordMode s) div P + 1) * P
                         div frame_rate (recordMode s),
                 screenshotPaths := []\<rparr>))))"
  using pending_pos [OF assms(2,3)] assms(4,5)
  by (subst SampleFrame.simps)
     (simp add: pacing_due [OF assms(1,2,3,6)] SampleFrame_try_def Let_def)

lemma SampleFrame_try_throws:
  "sample_throws e \<Longrightarrow>
     \<exists>s2. SampleFrame_try e n s = Exception s2 \<and> status s2 = status s
        \<and> taskQueue s2 = taskQueue s \<and> recordMode s2 = recordMode s
        \<and> nextFrame s2 = nextFrame s \<and> screenshotPaths s2 = []
        \<and> out s2 = out s @ [RequestFrame n (screenshotPaths s)]"
  by (cases "callback e"; cases "fault e")
     (simp_all add: sample_throws_def throws_def SampleFrame_try_def Let_def new_frame_def)

text \<open>A pass of \<open>SampleFrame\<close> that is due and throws, outside a retry and inside one.\<close>

lemma SampleFrame_first_throws:
  assumes "status s = OK" and "taskQueue s = []"
    and "recordMode s \<noteq> STOPPED" and "nextFrame s \<le> now (env k)" and "0 < P"
    and "sample_throws (env k)" and "error_lock_ok (env k)"
    and "in_range P (frame_rate (recordMode s)) (nextFrame s) (now (env k))"
  shows "\<exists>s1. status s1 = RETRY \<and> taskQueue s1 = [] \<and> nextFrame s1 = nextFrame s
      \<and> recordMode s1 = recordMode s \<and> screenshotPaths s1 = []
      \<and> out s1 = out s @ [RequestFrame ((now (env k) - nextFrame s) * frame_rate (recordMode s) div P + 1)
                              (screenshotPaths s),
                          Cerr (SubmitError SampleFail True)]
      \<and> SampleFrame P env k s =
          (case SampleFrame P env (Suc k) s1 of Done s4 \<Rightarrow> Done (s4\<lparr>status := OK\<rparr>) | r \<Rightarrow> r)"
proof -
  let ?n = "(now (env k) - nextFrame s) * frame_rate (recordMode s) div P + 1"
  from SampleFrame_try_throws [OF assms(6), of ?n
      "s\<lparr>nextFrame := nextFrame s + ?n * P div frame_rate (recordMode s)\<rparr>"]
  obtain s2 where t: "SampleFrame_try (env k) ?n
      (s\<lparr>nextFrame := nextFrame s + ?n * P div frame_rate (recordMode s)\<rparr>) = Exception s2"
    and k2: "status s2 = OK \<and> taskQueue s2 = [] \<and> recordMode s2 = recordMode s
       \<and> screenshotPaths s2 = [] \<and> out s2 = out s @ [RequestFrame ?n (screenshotPaths s)]"
    using assms(1,2) by auto
  let ?s3 = "say (Cerr (SubmitError SampleFail True)) (s2\<lparr>nextFrame := nextFrame s\<rparr>)"
  have e: "Error (error_lock_ok (env k)) SampleFail (s2\<lparr>nextFrame := nextFrame s\<rparr>) = Done ?s3"
    using assms(7) k2 by (simp add: Error_def)
  have "SampleFrame P env k s =
          (case SampleFrame P env (Suc k) (?s3\<lparr>status := RETRY\<rparr>) of
             Done s4 \<Rightarrow> Done (s4\<lparr>status := OK\<rparr>) | r \<Rightarrow> r)"
    using pending_pos [OF assms(4,5)] k2
    by (subst SampleFrame.simps) (simp add: pacing_due [OF assms(3,4,5,8)] t e Let_def)
  moreover have "status (?s3\<lparr>status := RETRY\<rparr>) = RETRY \<and> taskQueue (?s3\<lparr>status := RETRY\<rparr>) = []
      \<and> nextFrame (?s3\<lparr>status := RETRY\<rparr>) = nextFrame s
      \<and> recordMode (?s3\<lparr>status := RETRY\<rparr>) = recordMode s
      \<and> screenshotPaths (?s3\<lparr>status := RETRY\<rparr>) = []
      \<and> out (?s3\<lparr>status := RETRY\<rparr>) = out s @ [RequestFrame ?n (screenshotPaths s),
                          Cerr (SubmitError SampleFail True)]"
    using k2 by simp
  ultimately show ?thesis by blast
qed







lemma Screenshot_ok:
  "fault (env k) \<noteq> AllocThrows \<Longrightarrow> fault (env k) \<noteq> PushThrows \<Longrightarrow>
     Screenshot env k name s = Done (s\<lparr>screenshotPaths := screenshotPaths s @ [name]\<rparr>)"
  by (subst Screenshot.simps) (simp add: Screenshot_try_def split: fault.splits)



lemma rec0_simps:
  "status rec0 = OK" "taskQueue rec0 = []" "recordMode rec0 = LOW_FPS" "nextFrame rec0 = 0"
  "out rec0 = []" "screenshotPaths rec0 = []" "recordMode rec0 \<noteq> STOPPED"
  by (simp_all add: rec0_def init_def)

lemma env_throws_simps:
  "error_lock_ok (env_throws t k)" "sample_throws (env_throws t k)" "throws (env_throws t k)"
  "fault (env_throws t k) = PushThrows" "now (env_throws t k) = t" "\<not> passes (env_throws t k)"
  by (simp_all add: env_throws_def sample_throws_def throws_def passes_def)

lemma env_once_simps:
  "error_lock_ok (env_once t fid k)" "sample_throws (env_once t fid 0)" "throws (env_once t fid 0)"
  "fault (env_once t fid (Suc k)) = NoFault" "callback (env_once t fid (Suc k)) = Some fid"
  "now (env_once t fid k) = t" "fault (env_once t fid 0) = PushThrows"
  by (simp_all add: env_once_def env_throws_def env_ok_def sample_throws_def throws_def)

section \<open>Retry after a failed submission (C7)\<close>



lemma SampleFrame_try_Passed: "SampleFrame_try e n s = Passed s' \<Longrightarrow> passes e"
  by (auto simp: SampleFrame_try_def passes_def Let_def split: option.splits fault.splits)

lemma SampleFrame_try_Exception_mode:
  "SampleFrame_try e n s = Exception s' \<Longrightarrow> recordMode s' = recordMode s"
  by (auto simp: SampleFrame_try_def Let_def new_frame_def split: option.splits fault.splits)

text \<open>\<open>SampleFrame\<close> in terms of its pacing step.\<close>

lemma SampleFrame_unfold:
  "SampleFrame P env k s =
     (if snd (pacing P (now (env k)) s) \<noteq> 0
          \<or> screenshotPaths (fst (pacing P (now (env k)) s)) \<noteq> [] then
           (case SampleFrame_try (env k) (snd (pacing P (now (env k)) s))
                   (fst (pacing P (now (env k)) s)) of
              Passed s2 \<Rightarrow> Done s2
            | SystemError \<Rightarrow> Aborted
            | Exception s2 \<Rightarrow>
                (case Error (error_lock_ok (env k)) SampleFail (s2\<lparr>nextFrame := nextFrame s\<rparr>) of
                   Done s3 \<Rightarrow>
                     if status s3 = OK
                     then (case SampleFrame P env (Suc k) (s3\<lparr>status := RETRY\<rparr>) of
                             Done s4 \<Rightarrow> Done (s4\<lparr>status := OK\<rparr>)
                           | r \<Rightarrow> r)
                     else Done s3
                 | r \<Rightarrow> r))
         else Done (fst (pacing P (now (env k)) s)))"
  by (subst SampleFrame.simps) (simp add: pacing_def Let_def case_prod_beta)

lemma pacing_sel [simp]:
  "status (fst (pacing P nw s)) = status s" "taskQueue (fst (pacing P nw s)) = taskQueue s"
  "recordMode (fst (pacing P nw s)) = recordMode s"
  "screenshotPaths (fst (pacing P nw s)) = screenshotPaths s"
  "out (fst (pacing P nw s)) = out s"
  by (simp_all add: pacing_def split: RecordMode.split)

text \<open>A pacing step that finds no frame pending leaves the recorder as it is.\<close>

lemma pacing_zero:
  "snd (pacing P nw s) = 0 \<Longrightarrow> in64 (nextFrame s) \<Longrightarrow> fst (pacing P nw s) = s"
  by (auto simp: pacing_def AdvanceFrame_zero split: if_splits RecordMode.splits)

text \<open>
  A call of \<open>SampleFrame\<close> whose passes all throw returns with the deadline it was
  called with: inside a retry, and outside one.
\<close>

lemma SampleFrame_retry_fails:
  assumes "status s = RETRY" and "taskQueue s = []" and "sample_throws (env k)"
    and "error_lock_ok (env k)" and "in64 (nextFrame s)"
  shows "\<exists>s'. SampleFrame P env k s = Done s' \<and> nextFrame s' = nextFrame s"
proof (cases "snd (pacing P (now (env k)) s) \<noteq> 0
    \<or> screenshotPaths (fst (pacing P (now (env k)) s)) \<noteq> []")
  case False
  with pacing_zero [of P "now (env k)" s] assms(5) show ?thesis
    by (subst SampleFrame_unfold) simp
next
  case True
  from SampleFrame_try_throws [OF assms(3), of "snd (pacing P (now (env k)) s)"
      "fst (pacing P (now (env k)) s)"]
  obtain s2 where t: "SampleFrame_try (env k) (snd (pacing P (now (env k)) s))
      (fst (pacing P (now (env k)) s)) = Exception s2"
    and k2: "status s2 = RETRY" "taskQueue s2 = []"
    using assms(1,2) by auto
  have e: "Error (error_lock_ok (env k)) SampleFail (s2\<lparr>nextFrame := nextFrame s\<rparr>)
      = Done (say (Cerr (SubmitError SampleFail False)) (s2\<lparr>nextFrame := nextFrame s\<rparr>))"
    using assms(4) k2 by (simp add: Error_def)
  from True show ?thesis
    by (subst SampleFrame_unfold) (simp add: t e k2)
qed

lemma SampleFrame_first_fails:
  assumes "status s = OK" and "taskQueue s = []" and "sample_throws (env k)"
    and "error_lock_ok (env k)" and "in64 (nextFrame s)"
    and "sample_throws (env (Suc k))" and "error_lock_ok (env (Suc k))"
  shows "\<exists>s'. SampleFrame P env k s = Done s' \<and> nextFrame s' = nextFrame s"
proof (cases "snd (pacing P (now (env k)) s) \<noteq> 0
    \<or> screenshotPaths (fst (pacing P (now (env k)) s)) \<noteq> []")
  case False
  with pacing_zero [of P "now (env k)" s] assms(5) show ?thesis
    by (subst SampleFrame_unfold) simp
next
  case True
  from SampleFrame_try_throws [OF assms(3), of "snd (pacing P (now (env k)) s)"
      "fst (pacing P (now (env k)) s)"]
  obtain s2 where t: "SampleFrame_try (env k) (snd (pacing P (now (env k)) s))
      (fst (pacing P (now (env k)) s)) = Exception s2"
    and k2: "status s2 = OK" "taskQueue s2 = []"
    using assms(1,2) by auto
  let ?s3 = "say (Cerr (SubmitError SampleFail True)) (s2\<lparr>nextFrame := nextFrame s\<rparr>)"
  have e: "Error (error_lock_ok (env k)) SampleFail (s2\<lparr>nextFrame := nextFrame s\<rparr>) = Done ?s3"
    using assms(4) k2 by (simp add: Error_def)
  from SampleFrame_retry_fails [where s = "?s3\<lparr>status := RETRY\<rparr>" and env = env
      and k = "Suc k" and P = P] assms(5,6,7) k2
  obtain s4 where r: "SampleFrame P env (Suc k) (?s3\<lparr>status := RETRY\<rparr>) = Done s4"
    and n4: "nextFrame s4 = nextFrame s"
    by auto
  from True show ?thesis
    by (subst SampleFrame_unfold) (simp add: t e k2 r n4)
qed

lemma SampleFrame_all_fail:
  "SampleFrame P env k s = Done s' \<Longrightarrow> in64 (nextFrame s) \<Longrightarrow> \<forall>j\<ge>k. \<not> passes (env j) \<Longrightarrow>
     nextFrame s' = nextFrame s \<and> recordMode s' = recordMode s"
proof (induction P env k s arbitrary: s' rule: SampleFrame.induct)
  case (1 P env k s)
  define pr where "pr = (if recordMode s \<noteq> STOPPED \<and> nextFrame s \<le> now (env k)
              then (case recordMode s of
                      LOW_FPS \<Rightarrow> AdvanceFrame P lowFPS (now (env k)) s
                    | HIGH_FPS \<Rightarrow> AdvanceFrame P highFPS (now (env k)) s
                    | STOPPED \<Rightarrow> (s, 0))
              else (s, 0))"
  obtain s1 pending where pc: "(s1, pending) = pr" by (cases pr) simp
  have pp: "pr = pacing P (now (env k)) s" by (simp add: pr_def pacing_def)
  have m1: "recordMode s1 = recordMode s"
    using pc [symmetric] pacing_sel(3) [of P "now (env k)" s] by (simp add: pp [symmetric])
  have idle: "s1 = s" if "\<not> (pending \<noteq> 0 \<or> screenshotPaths s1 \<noteq> [])"
    using pacing_zero [of P "now (env k)" s] "1.prems"(2) pc [symmetric] that
    by (simp add: pp [symmetric])
  have unf: "SampleFrame P env k s =
     (if pending \<noteq> 0 \<or> screenshotPaths s1 \<noteq> [] then
           (case SampleFrame_try (env k) pending s1 of
              Passed s2 \<Rightarrow> Done s2
            | SystemError \<Rightarrow> Aborted
            | Exception s2 \<Rightarrow>
                (case Error (error_lock_ok (env k)) SampleFail (s2\<lparr>nextFrame := nextFrame s\<rparr>) of
                   Done s3 \<Rightarrow>
                     if status s3 = OK
                     then (case SampleFrame P env (Suc k) (s3\<lparr>status := RETRY\<rparr>) of
                             Done s4 \<Rightarrow> Done (s4\<lparr>status := OK\<rparr>)
                           | r \<Rightarrow> r)
                     else Done s3
                 | r \<Rightarrow> r))
         else Done s1)"
    by (subst SampleFrame.simps) (simp add: pr_def [symmetric] pc [symmetric] Let_def)
  show ?case
  proof (cases "pending \<noteq> 0 \<or> screenshotPaths s1 \<noteq> []")
    case False
    with "1.prems"(1) unf idle show ?thesis by simp
  next
    case c: True
    show ?thesis
    proof (cases "SampleFrame_try (env k) pending s1")
      case (Passed s2)
      from SampleFrame_try_Passed [OF this] "1.prems"(3) show ?thesis by auto
    next
      case SystemError
      with "1.prems"(1) unf c show ?thesis by simp
    next
      case (Exception s2)
      show ?thesis
      proof (cases "Error (error_lock_ok (env k)) SampleFail (s2\<lparr>nextFrame := nextFrame s\<rparr>)")
        case (Done s3)
        from Error_Done [OF Done] SampleFrame_try_Exception_mode [OF Exception] m1
        have k3: "nextFrame s3 = nextFrame s \<and> recordMode s3 = recordMode s" by simp
        show ?thesis
        proof (cases "status s3 = OK")
          case False
          with "1.prems"(1) unf c Exception Done k3 show ?thesis by simp
        next
          case True
          with "1.prems"(1) unf c Exception Done obtain s4
            where r: "SampleFrame P env (Suc k) (s3\<lparr>status := RETRY\<rparr>) = Done s4"
              and s': "s' = s4\<lparr>status := OK\<rparr>"
            by (auto split: res.splits)
          have i: "in64 (nextFrame (s3\<lparr>status := RETRY\<rparr>))" using k3 "1.prems"(2) by simp
          have "\<forall>j\<ge>Suc k. \<not> passes (env j)" using "1.prems"(3) by simp
          from "1.IH" [OF refl pr_def pc c Exception Done True r i this] k3 s'
          show ?thesis by simp
        qed
      qed (use "1.prems"(1) unf c Exception in simp_all)
    qed
  qed
qed

section \<open>The deadline is a value of \<open>clock::rep\<close>\<close>

text \<open>
  \<open>nextFrame\<close> is assigned the clock reading by \<open>StartRecordImpl\<close> and a wrapped sum by
  \<open>AdvanceFrame\<close>; nothing else changes it. So it is a value of \<open>clock::rep\<close> in every
  state that a run reaches from the initial state, when the clock readings are.
\<close>

lemma in64_wrap64: "in64 (wrap64 x)"
  by (simp add: in64_def wrap64_def)

lemma in64_pacing: "in64 (nextFrame s) \<Longrightarrow> in64 (nextFrame (fst (pacing P nw s)))"
  by (simp add: pacing_def AdvanceFrame_def Let_def in64_wrap64 split: RecordMode.split)

lemma SampleFrame_try_nextFrame:
  "SampleFrame_try e n s = Passed s' \<or> SampleFrame_try e n s = Exception s'
     \<Longrightarrow> nextFrame s' = nextFrame s"
  by (auto simp: SampleFrame_try_def Let_def new_frame_def push_back_def
      split: option.splits fault.splits)

lemma SampleFrame_in64:
  "SampleFrame P env k s = Done s' \<Longrightarrow> in64 (nextFrame s) \<Longrightarrow> in64 (nextFrame s')"
proof (induction P env k s arbitrary: s' rule: SampleFrame.induct)
  case (1 P env k s)
  define pr where "pr = (if recordMode s \<noteq> STOPPED \<and> nextFrame s \<le> now (env k)
              then (case recordMode s of
                      LOW_FPS \<Rightarrow> AdvanceFrame P lowFPS (now (env k)) s
                    | HIGH_FPS \<Rightarrow> AdvanceFrame P highFPS (now (env k)) s
                    | STOPPED \<Rightarrow> (s, 0))
              else (s, 0))"
  obtain s1 pending where pc: "(s1, pending) = pr" by (cases pr) simp
  have pp: "pr = pacing P (now (env k)) s" by (simp add: pr_def pacing_def)
  have i1: "in64 (nextFrame s1)"
    using pc [symmetric] in64_pacing [OF "1.prems"(2), of P "now (env k)"]
    by (simp add: pp [symmetric])
  have unf: "SampleFrame P env k s =
     (if pending \<noteq> 0 \<or> screenshotPaths s1 \<noteq> [] then
           (case SampleFrame_try (env k) pending s1 of
              Passed s2 \<Rightarrow> Done s2
            | SystemError \<Rightarrow> Aborted
            | Exception s2 \<Rightarrow>
                (case Error (error_lock_ok (env k)) SampleFail (s2\<lparr>nextFrame := nextFrame s\<rparr>) of
                   Done s3 \<Rightarrow>
                     if status s3 = OK
                     then (case SampleFrame P env (Suc k) (s3\<lparr>status := RETRY\<rparr>) of
                             Done s4 \<Rightarrow> Done (s4\<lparr>status := OK\<rparr>)
                           | r \<Rightarrow> r)
                     else Done s3
                 | r \<Rightarrow> r))
         else Done s1)"
    by (subst SampleFrame.simps) (simp add: pr_def [symmetric] pc [symmetric] Let_def)
  show ?case
  proof (cases "pending \<noteq> 0 \<or> screenshotPaths s1 \<noteq> []")
    case False
    with "1.prems"(1) unf i1 show ?thesis by simp
  next
    case c: True
    show ?thesis
    proof (cases "SampleFrame_try (env k) pending s1")
      case (Passed s2)
      with "1.prems"(1) unf c SampleFrame_try_nextFrame [of "env k" pending s1 s2] i1
      show ?thesis by simp
    next
      case SystemError
      with "1.prems"(1) unf c show ?thesis by simp
    next
      case (Exception s2)
      show ?thesis
      proof (cases "Error (error_lock_ok (env k)) SampleFail (s2\<lparr>nextFrame := nextFrame s\<rparr>)")
        case (Done s3)
        from Error_Done [OF Done] "1.prems"(2) have i3: "in64 (nextFrame s3)" by simp
        show ?thesis
        proof (cases "status s3 = OK")
          case False
          with "1.prems"(1) unf c Exception Done i3 show ?thesis by simp
        next
          case True
          with "1.prems"(1) unf c Exception Done obtain s4
            where r: "SampleFrame P env (Suc k) (s3\<lparr>status := RETRY\<rparr>) = Done s4"
              and s': "s' = s4\<lparr>status := OK\<rparr>"
            by (auto split: res.splits)
          from "1.IH" [OF refl pr_def pc c Exception Done True r] i3 s'
          show ?thesis by simp
        qed
      qed (use "1.prems"(1) unf c Exception in simp_all)
    qed
  qed
qed

lemma StartRecordImpl_try_in64:
  "StartRecordImpl_try e a task s = Passed (a', t', s')
     \<or> StartRecordImpl_try e a task s = Exception (a', t', s')
     \<Longrightarrow> in64 (nextFrame s) \<Longrightarrow> in64 (now e) \<Longrightarrow> in64 (nextFrame s')"
  by (auto simp: StartRecordImpl_try_def Let_def push_back_def
      split: if_splits fault.splits option.splits)

lemma StartRecordImpl_in64:
  "StartRecordImpl env k a task s = Done s' \<Longrightarrow> in64 (nextFrame s) \<Longrightarrow>
     \<forall>j. in64 (now (env j)) \<Longrightarrow> in64 (nextFrame s')"
proof (induction env k a task s arbitrary: s' rule: StartRecordImpl.induct)
  case (1 env k a task s)
  note unf = StartRecordImpl.simps [of env k a task s]
  from "1.prems"(3) have nk: "in64 (now (env k))" by simp
  show ?case
  proof (cases "StartRecordImpl_try (env k) a task s")
    case (Passed x)
    obtain a1 task1 s1 where x: "x = (a1, task1, s1)" by (cases x)
    with Passed "1.prems" unf nk StartRecordImpl_try_in64 [of "env k" a task s a1 task1 s1]
    show ?thesis by simp
  next
    case SystemError
    with "1.prems"(1) unf show ?thesis by simp
  next
    case (Exception x)
    obtain a1 task1 s1 where x: "x = (a1, task1, s1)" by (cases x)
    with Exception StartRecordImpl_try_in64 [of "env k" a task s a1 task1 s1] "1.prems"(2) nk
    have i1: "in64 (nextFrame s1)" by simp
    show ?thesis
    proof (cases "Error (error_lock_ok (env k)) StartFail s1")
      case (Done s2)
      from Error_Done [OF Done] i1 have i2: "in64 (nextFrame s2)" by simp
      show ?thesis
      proof (cases "status s2 = OK")
        case False
        with "1.prems"(1) unf Exception x Done i2 show ?thesis by simp
      next
        case True
        with "1.prems"(1) unf Exception x Done obtain s3
          where r: "StartRecordImpl env (Suc k) a1 task1 (s2\<lparr>status := RETRY\<rparr>) = Done s3"
            and s': "s' = s3\<lparr>status := OK\<rparr>"
          by (auto split: res.splits)
        from "1.IH" [OF Exception x [symmetric] refl Done True r] i2 s' "1.prems"(3)
        show ?thesis by simp
      qed
    qed (use "1.prems"(1) unf Exception x in simp_all)
  qed
qed

lemma StopRecord_nextFrame: "StopRecord env k s = Done s' \<Longrightarrow> nextFrame s' = nextFrame s"
proof (induction env k s arbitrary: s' rule: StopRecord.induct)
  case (1 env k s)
  note unf = StopRecord.simps [of env k s]
  have tr: "nextFrame s1 = nextFrame s"
    if "StopRecord_try (env k) s = Passed s1 \<or> StopRecord_try (env k) s = Exception s1" for s1
    using that by (auto simp: StopRecord_try_def push_back_def split: fault.splits)
  show ?case
  proof (cases "StopRecord_try (env k) s")
    case (Passed s1)
    with "1.prems" unf tr [of s1] show ?thesis by simp
  next
    case SystemError
    with "1.prems"(1) unf show ?thesis by simp
  next
    case (Exception s1)
    with tr [of s1] have i1: "nextFrame s1 = nextFrame s" by simp
    show ?thesis
    proof (cases "Error (error_lock_ok (env k)) StopFail s1")
      case (Done s2)
      from Error_Done [OF Done] i1 have i2: "nextFrame s2 = nextFrame s" by simp
      show ?thesis
      proof (cases "status s2 = OK")
        case False
        with "1.prems"(1) unf Exception Done i2 show ?thesis by simp
      next
        case True
        with "1.prems"(1) unf Exception Done obtain s3
          where r: "StopRecord env (Suc k) (s2\<lparr>status := CLEAN\<rparr>) = Done s3"
            and s': "s' = s3\<lparr>status := OK\<rparr>"
          by (auto split: res.splits)
        from "1.IH" [OF Exception Done True r] i2 s' show ?thesis by simp
      qed
    qed (use "1.prems"(1) unf Exception in simp_all)
  qed
qed

lemma Screenshot_nextFrame: "Screenshot env k n s = Done s' \<Longrightarrow> nextFrame s' = nextFrame s"
proof (induction env k n s arbitrary: s' rule: Screenshot.induct)
  case (1 env k n s)
  note unf = Screenshot.simps [of env k n s]
  have tr: "nextFrame s1 = nextFrame s"
    if "Screenshot_try (env k) n s = Passed s1 \<or> Screenshot_try (env k) n s = Exception s1" for s1
    using that by (auto simp: Screenshot_try_def split: fault.splits)
  show ?case
  proof (cases "Screenshot_try (env k) n s")
    case (Passed s1)
    with "1.prems" unf tr [of s1] show ?thesis by simp
  next
    case SystemError
    with "1.prems"(1) unf show ?thesis by simp
  next
    case (Exception s1)
    with tr [of s1] have i1: "nextFrame s1 = nextFrame s" by simp
    show ?thesis
    proof (cases "Error (error_lock_ok (env k)) ScreenshotFail s1")
      case (Done s2)
      from Error_Done [OF Done] i1 have i2: "nextFrame s2 = nextFrame s" by simp
      show ?thesis
      proof (cases "status s2 = OK")
        case False
        with "1.prems"(1) unf Exception Done i2 show ?thesis by simp
      next
        case True
        with "1.prems"(1) unf Exception Done obtain s3
          where r: "Screenshot env (Suc k) n (s2\<lparr>status := RETRY\<rparr>) = Done s3"
            and s': "s' = s3\<lparr>status := OK\<rparr>"
          by (auto split: res.splits)
        from "1.IH" [OF Exception Done True r] i2 s' show ?thesis by simp
      qed
    qed (use "1.prems"(1) unf Exception in simp_all)
  qed
qed

lemma do_call_in64:
  assumes "do_call P c s = Done s'" and "in64 (nextFrame s)"
    and "\<And>a env j. c = Call_StartRecord a env \<Longrightarrow> in64 (now (env j))"
  shows "in64 (nextFrame s')"
proof (cases c)
  case (Worker io)
  show ?thesis
  proof (cases "Process io s")
    case (Ran t r)
    with assms(1) Worker obtain ts where "task_call t io (s\<lparr>taskQueue := ts\<rparr>) = Done s'"
      by (auto simp: do_call_def Process_Ran)
    from task_call_keeps [OF this] assms(2) show ?thesis by (simp add: same_caller_def)
  qed (use assms(1,2) Worker in \<open>simp_all add: do_call_def\<close>)
next
  case (Call_StartRecord a env)
  with assms show ?thesis
    by (auto simp: do_call_def StartRecord_def dest: StartRecordImpl_in64)
qed (use assms(1,2) in \<open>auto simp: do_call_def Ready_def Cancel_def
       dest: SampleFrame_in64 StopRecord_nextFrame Screenshot_nextFrame
       split: if_splits option.splits\<close>)

lemma run_in64:
  "run P cs s = Done s' \<Longrightarrow> in64 (nextFrame s) \<Longrightarrow>
     \<forall>a env. Call_StartRecord a env \<in> set cs \<longrightarrow> (\<forall>j. in64 (now (env j))) \<Longrightarrow>
     in64 (nextFrame s')"
proof (induction cs arbitrary: s)
  case Nil
  then show ?case by simp
next
  case (Cons c cs)
  from Cons.prems(1) obtain s1 where d: "do_call P c s = Done s1" and r: "run P cs s1 = Done s'"
    by (auto split: res.splits)
  have i: "in64 (nextFrame s1)"
  proof (rule do_call_in64 [OF d Cons.prems(2)])
    fix a env j
    assume "c = Call_StartRecord a env"
    then show "in64 (now (env j))" using Cons.prems(3) by simp
  qed
  have "\<forall>a env. Call_StartRecord a env \<in> set cs \<longrightarrow> (\<forall>j. in64 (now (env j)))"
    using Cons.prems(3) by simp
  from Cons.IH [OF r i this] show ?case .
qed

lemma in64_init: "in64 (nextFrame init)"
  by (simp add: in64_def init_def)

section \<open>A failed sample and the deadline (C10)\<close>

text \<open>
  C10. When a pass of \<open>SampleFrame\<close> throws a \<open>std::exception\<close>, \<open>nextFrame\<close> is set
  back to its value at the start of that pass before anything else happens. So a call in
  which no pass succeeds returns with \<open>nextFrame\<close> (and the record mode) unchanged, and
  when the first pass throws and the retry succeeds, the pending-frame count and the new
  deadline are computed from the old deadline and the clock value of the retry, as if
  the failed pass had not been made. The deadline \<open>nextFrame s\<close> is a value of
  \<open>clock::rep\<close>; the restore holds for every gap, overflowing or not, and the formula for
  the count of the successful retry holds for gaps within the bound \<open>in_range\<close>.
\<close>

theorem C10_failed_sample_restores_deadline:
  assumes "0 < P" and "in64 (nextFrame s)"
  shows
   "(SampleFrame P env k s = Done s' \<and> (\<forall>j\<ge>k. \<not> passes (env j)) \<longrightarrow>
       nextFrame s' = nextFrame s \<and> recordMode s' = recordMode s)
    \<and> (status s = OK \<and> taskQueue s = [] \<and> error_lock_ok (env k) \<and> error_lock_ok (env (Suc k))
        \<and> recordMode s \<noteq> STOPPED \<and> nextFrame s \<le> now (env k) \<and> nextFrame s \<le> now (env (Suc k))
        \<and> sample_throws (env k) \<longrightarrow>
         (sample_throws (env (Suc k)) \<longrightarrow>
            (\<exists>s'. SampleFrame P env k s = Done s' \<and> nextFrame s' = nextFrame s))
         \<and> (callback (env (Suc k)) = Some fid \<and> fault (env (Suc k)) = NoFault
              \<and> in_range P (frame_rate (recordMode s)) (nextFrame s) (now (env k))
              \<and> in_range P (frame_rate (recordMode s)) (nextFrame s) (now (env (Suc k))) \<longrightarrow>
            (let F = frame_rate (recordMode s);
                 n = (now (env (Suc k)) - nextFrame s) * F div P + 1
             in \<exists>s'. SampleFrame P env k s = Done s'
                  \<and> nextFrame s' = nextFrame s + n * P div F
                  \<and> map_option videoPendingFrames (frames s' fid) = Some n)))"
proof -
  have a: "nextFrame s' = nextFrame s \<and> recordMode s' = recordMode s"
    if "SampleFrame P env k s = Done s' \<and> (\<forall>j\<ge>k. \<not> passes (env j))"
    using that SampleFrame_all_fail [of P env k s s'] assms(2) by blast
  have b: "\<exists>s'. SampleFrame P env k s = Done s' \<and> nextFrame s' = nextFrame s"
    if h: "status s = OK \<and> taskQueue s = [] \<and> error_lock_ok (env k) \<and> error_lock_ok (env (Suc k))
        \<and> recordMode s \<noteq> STOPPED \<and> nextFrame s \<le> now (env k) \<and> nextFrame s \<le> now (env (Suc k))
        \<and> sample_throws (env k)" and t': "sample_throws (env (Suc k))"
    using SampleFrame_first_fails [where s = s and env = env and k = k and P = P] h t' assms(2)
    by simp
  have c: "let F = frame_rate (recordMode s);
                 n = (now (env (Suc k)) - nextFrame s) * F div P + 1
             in \<exists>s'. SampleFrame P env k s = Done s'
                  \<and> nextFrame s' = nextFrame s + n * P div F
                  \<and> map_option videoPendingFrames (frames s' fid) = Some n"
    if h: "status s = OK \<and> taskQueue s = [] \<and> error_lock_ok (env k) \<and> error_lock_ok (env (Suc k))
        \<and> recordMode s \<noteq> STOPPED \<and> nextFrame s \<le> now (env k) \<and> nextFrame s \<le> now (env (Suc k))
        \<and> sample_throws (env k)"
      and t': "callback (env (Suc k)) = Some fid \<and> fault (env (Suc k)) = NoFault
              \<and> in_range P (frame_rate (recordMode s)) (nextFrame s) (now (env k))
              \<and> in_range P (frame_rate (recordMode s)) (nextFrame s) (now (env (Suc k)))"
  proof -
    from SampleFrame_first_throws [where s = s and env = env and k = k and P = P] h t' assms(1)
    obtain s1
      where s1: "status s1 = RETRY" "taskQueue s1 = []" "nextFrame s1 = nextFrame s"
        "recordMode s1 = recordMode s"
        and u: "SampleFrame P env k s =
          (case SampleFrame P env (Suc k) s1 of Done s4 \<Rightarrow> Done (s4\<lparr>status := OK\<rparr>) | r \<Rightarrow> r)"
      by auto
    have "recordMode s1 \<noteq> STOPPED" "nextFrame s1 \<le> now (env (Suc k))"
      "in_range P (frame_rate (recordMode s1)) (nextFrame s1) (now (env (Suc k)))"
      using s1 h t' by simp_all
    from SampleFrame_due_ok [where s = s1 and env = env and k = "Suc k" and P = P and fid = fid]
      this assms(1) t' u s1 show ?thesis
      by (simp add: push_back_def new_frame_def Let_def)
  qed
  from a b c show ?thesis by blast
qed

text \<open>A sample 40 ticks after the deadline, at 30 frames per second and 1000 ticks per second.\<close>

theorem C10_failed_sample_restores_deadline_witness:
  "(\<exists>s'. SampleFrame 1000 (env_throws 40) 0 rec0 = Done s' \<and> nextFrame s' = 0)
   \<and> (\<exists>s'. SampleFrame 1000 (env_once 40 7) 0 rec0 = Done s' \<and> nextFrame s' = 66
         \<and> map_option videoPendingFrames (frames s' 7) = Some 2)"
proof -
  have a: "(0::int) < 1000" by simp
  have b: "in64 (nextFrame rec0)" by (simp add: rec0_simps in64_def)
  note f = C10_failed_sample_restores_deadline [OF a b, where env = "env_throws 40"
      and k = 0 and fid = 7]
  note g = C10_failed_sample_restores_deadline [OF a b, where env = "env_once 40 7"
      and k = 0 and fid = 7]
  from f g show ?thesis
    by (simp add: rec0_simps env_throws_simps env_once_simps frame_rate_def lowFPS_def
        in_range_def Let_def)
qed

text \<open>
  The restore does not depend on the arithmetic. With the clock \<open>4 \<cdot> 10\<^sup>1\<^sup>8\<close> nanoseconds
  past the deadline the count overflows (it is negative), the pass is made with it and
  throws, and the call returns with the deadline it was called with.
\<close>

lemma failed_sample_restores_after_overflow:
  "\<exists>s'. SampleFrame 1000000000 (env_throws 4000000000000000000) 0 rec0 = Done s'
      \<and> nextFrame s' = nextFrame rec0
      \<and> out s' = [RequestFrame (- 64467440736) [], Cerr (SubmitError SampleFail True),
                  RequestFrame (- 64467440736) [], Cerr (SubmitError SampleFail False)]"
  by (simp add: SampleFrame_unfold pacing_def rec0_def init_def env_throws_def
      AdvanceFrame_def duration_cast_def tdiv_def wrap64_def gcd_ns_30 lowFPS_def
      SampleFrame_try_def Error_def say_def says_def Let_def)

section \<open>Screenshots (C5)\<close>

lemma run_append:
  "run P (xs @ ys) s = (case run P xs s of Done s1 \<Rightarrow> run P ys s1 | r \<Rightarrow> r)"
  by (induction xs arbitrary: s) (auto split: res.splits)

lemma run_screenshots:
  "fault (env 0) = NoFault \<Longrightarrow>
     run P (map (\<lambda>n. Call_Screenshot n env) names) s
       = Done (s\<lparr>screenshotPaths := screenshotPaths s @ names\<rparr>)"
  by (induction names arbitrary: s) (simp_all add: do_call_def Screenshot_ok)

lemma saved_save_screenshots [simp]: "saved (save_screenshots io k ps) = ps"
  by (induction ps arbitrary: k) simp_all

lemma video_io_save_screenshots [simp]: "video_io (save_screenshots io k ps) = []"
  by (induction ps arbitrary: k) simp_all

lemma SampleFrame_paths_ok:
  assumes "screenshotPaths s \<noteq> []" and "callback (env k) = Some fid" and "fault (env k) = NoFault"
  shows "\<exists>n nf. SampleFrame P env k s =
      Done (push_back (CFrameTask fid) (new_frame fid (screenshotPaths s) n
              (say (RequestFrame n (screenshotPaths s)) (s\<lparr>nextFrame := nf, screenshotPaths := []\<rparr>))))"
proof -
  define pr where "pr = (if recordMode s \<noteq> STOPPED \<and> nextFrame s \<le> now (env k)
              then (case recordMode s of
                      LOW_FPS \<Rightarrow> AdvanceFrame P lowFPS (now (env k)) s
                    | HIGH_FPS \<Rightarrow> AdvanceFrame P highFPS (now (env k)) s
                    | STOPPED \<Rightarrow> (s, 0))
              else (s, 0))"
  have "\<exists>nf. fst pr = s\<lparr>nextFrame := nf\<rparr>"
  proof (cases "fst pr = s")
    case True
    then have "fst pr = s\<lparr>nextFrame := nextFrame s\<rparr>" by simp
    then show ?thesis by blast
  next
    case False
    then show ?thesis
      by (auto simp: pr_def AdvanceFrame_def Let_def split: if_splits RecordMode.splits)
  qed
  then obtain nf n where pc: "pr = (s\<lparr>nextFrame := nf\<rparr>, n)" by (cases pr) auto
  show ?thesis
    using assms
    by (subst SampleFrame.simps)
       (auto simp: pr_def [symmetric] pc SampleFrame_try_def Let_def)
qed

text \<open>
  The callback of a sample that finds paths pending is invoked with all of them, whether
  or not the submission succeeds afterwards.
\<close>

lemma SampleFrame_try_out:
  "SampleFrame_try e n s = Passed s' \<or> SampleFrame_try e n s = Exception s'
     \<Longrightarrow> out s' = out s @ [RequestFrame n (screenshotPaths s)]"
  by (auto simp: SampleFrame_try_def Let_def new_frame_def push_back_def
      split: option.splits fault.splits)

lemma Error_out: "Error l p s = Done s' \<Longrightarrow> \<exists>evs. out s' = out s @ evs"
  by (cases "status s")
     (auto simp: Error_def Let_def Cleanup_def split: if_splits option.splits)

lemma SampleFrame_out: "SampleFrame P env k s = Done s' \<Longrightarrow> \<exists>evs. out s' = out s @ evs"
proof (induction P env k s arbitrary: s' rule: SampleFrame.induct)
  case (1 P env k s)
  define pr where "pr = (if recordMode s \<noteq> STOPPED \<and> nextFrame s \<le> now (env k)
              then (case recordMode s of
                      LOW_FPS \<Rightarrow> AdvanceFrame P lowFPS (now (env k)) s
                    | HIGH_FPS \<Rightarrow> AdvanceFrame P highFPS (now (env k)) s
                    | STOPPED \<Rightarrow> (s, 0))
              else (s, 0))"
  obtain s1 pending where pc: "(s1, pending) = pr" by (cases pr) simp
  have pp: "pr = pacing P (now (env k)) s" by (simp add: pr_def pacing_def)
  have o1: "out s1 = out s"
    using pc [symmetric] pacing_sel(5) [of P "now (env k)" s] by (simp add: pp [symmetric])
  have unf: "SampleFrame P env k s =
     (if pending \<noteq> 0 \<or> screenshotPaths s1 \<noteq> [] then
           (case SampleFrame_try (env k) pending s1 of
              Passed s2 \<Rightarrow> Done s2
            | SystemError \<Rightarrow> Aborted
            | Exception s2 \<Rightarrow>
                (case Error (error_lock_ok (env k)) SampleFail (s2\<lparr>nextFrame := nextFrame s\<rparr>) of
                   Done s3 \<Rightarrow>
                     if status s3 = OK
                     then (case SampleFrame P env (Suc k) (s3\<lparr>status := RETRY\<rparr>) of
                             Done s4 \<Rightarrow> Done (s4\<lparr>status := OK\<rparr>)
                           | r \<Rightarrow> r)
                     else Done s3
                 | r \<Rightarrow> r))
         else Done s1)"
    by (subst SampleFrame.simps) (simp add: pr_def [symmetric] pc [symmetric] Let_def)
  show ?case
  proof (cases "pending \<noteq> 0 \<or> screenshotPaths s1 \<noteq> []")
    case False
    with "1.prems"(1) unf o1 show ?thesis by simp
  next
    case c: True
    show ?thesis
    proof (cases "SampleFrame_try (env k) pending s1")
      case (Passed s2)
      with "1.prems"(1) unf c SampleFrame_try_out [of "env k" pending s1 s2] o1
      show ?thesis by simp
    next
      case SystemError
      with "1.prems"(1) unf c show ?thesis by simp
    next
      case (Exception s2)
      with SampleFrame_try_out [of "env k" pending s1 s2] o1
      have o2: "out s2 = out s @ [RequestFrame pending (screenshotPaths s1)]" by simp
      show ?thesis
      proof (cases "Error (error_lock_ok (env k)) SampleFail (s2\<lparr>nextFrame := nextFrame s\<rparr>)")
        case (Done s3)
        from Error_out [OF Done] o2 obtain evs where o3: "out s3 = out s @ evs" by auto
        show ?thesis
        proof (cases "status s3 = OK")
          case False
          with "1.prems"(1) unf c Exception Done o3 show ?thesis by simp
        next
          case True
          with "1.prems"(1) unf c Exception Done obtain s4
            where r: "SampleFrame P env (Suc k) (s3\<lparr>status := RETRY\<rparr>) = Done s4"
              and s': "s' = s4\<lparr>status := OK\<rparr>"
            by (auto split: res.splits)
          from "1.IH" [OF refl pr_def pc c Exception Done True r] o3 s'
          show ?thesis by auto
        qed
      qed (use "1.prems"(1) unf c Exception in simp_all)
    qed
  qed
qed

lemma SampleFrame_hands_over:
  assumes "screenshotPaths s \<noteq> []" and "SampleFrame P env k s = Done s'"
  shows "\<exists>n evs. out s' = out s @ RequestFrame n (screenshotPaths s) # evs"
proof -
  let ?s1 = "fst (pacing P (now (env k)) s)"
  let ?n = "snd (pacing P (now (env k)) s)"
  have unf: "SampleFrame P env k s =
           (case SampleFrame_try (env k) ?n ?s1 of
              Passed s2 \<Rightarrow> Done s2
            | SystemError \<Rightarrow> Aborted
            | Exception s2 \<Rightarrow>
                (case Error (error_lock_ok (env k)) SampleFail (s2\<lparr>nextFrame := nextFrame s\<rparr>) of
                   Done s3 \<Rightarrow>
                     if status s3 = OK
                     then (case SampleFrame P env (Suc k) (s3\<lparr>status := RETRY\<rparr>) of
                             Done s4 \<Rightarrow> Done (s4\<lparr>status := OK\<rparr>)
                           | r \<Rightarrow> r)
                     else Done s3
                 | r \<Rightarrow> r))"
    using assms(1) by (subst SampleFrame_unfold) simp
  show ?thesis
  proof (cases "SampleFrame_try (env k) ?n ?s1")
    case (Passed s2)
    with assms(2) unf SampleFrame_try_out [of "env k" ?n ?s1 s2] show ?thesis by simp
  next
    case SystemError
    with assms(2) unf show ?thesis by simp
  next
    case (Exception s2)
    with SampleFrame_try_out [of "env k" ?n ?s1 s2]
    have o2: "out s2 = out s @ [RequestFrame ?n (screenshotPaths s)]" by simp
    show ?thesis
    proof (cases "Error (error_lock_ok (env k)) SampleFail (s2\<lparr>nextFrame := nextFrame s\<rparr>)")
      case (Done s3)
      from Error_out [OF Done] o2 obtain evs
        where o3: "out s3 = out s @ RequestFrame ?n (screenshotPaths s) # evs" by auto
      show ?thesis
      proof (cases "status s3 = OK")
        case False
        with assms(2) unf Exception Done o3 show ?thesis by auto
      next
        case True
        with assms(2) unf Exception Done obtain s4
          where r: "SampleFrame P env (Suc k) (s3\<lparr>status := RETRY\<rparr>) = Done s4"
            and s': "s' = s4\<lparr>status := OK\<rparr>"
          by (auto split: res.splits)
        from SampleFrame_out [OF r] o3 s' show ?thesis by auto
      qed
    qed (use assms(2) unf Exception in simp_all)
  qed
qed

lemma saved_replicate [simp]: "saved (replicate n WritePacket) = []"
  by (induction n) simp_all

lemma saved_Encode_out [simp]: "saved (Encode_out h e) = []"
  by (cases e) (simp_all add: Encode_out_def saved_append)

lemma Cleanup_saved: "Cleanup s = Done s' \<Longrightarrow> saved (out s') = saved (out s)"
  by (auto simp: Cleanup_Done saved_append)

lemma encode_pending_saved:
  "encode_pending io fid k n s = Done s' \<Longrightarrow> saved (out s') = saved (out s)"
proof (induction io fid k n s rule: encode_pending.induct)
  case (1 io fid k s)
  then show ?case by simp
next
  case (2 io fid k n s)
  show ?case
  proof (cases "writable_ok io k \<and> Encode_ok (encode io k)")
    case False
    with "2.prems" have "Cleanup (say (Cerr MakeWritableFail) s) = Done s'
       \<or> Cleanup (says (Encode_out (dstFrame s \<noteq> None) (encode io k)) s) = Done s'"
      by (auto simp: Encode_def split: if_splits)
    then show ?thesis by (auto dest!: Cleanup_saved simp: saved_append)
  next
    case True
    define s1 where "s1 = says (Encode_out (dstFrame s \<noteq> None) (encode io k)) s"
    define s3 where "s3 = set_pending fid (int n)
       (s1\<lparr>dstFrame := map_option (\<lambda>f. f\<lparr>pts := pts f + 1\<rparr>) (dstFrame s1)\<rparr>)"
    have e: "Encode (encode io k) s = (True, s1)"
      using True by (simp add: Encode_def s1_def)
    have k3: "saved (out s3) = saved (out s)"
      by (simp add: s3_def s1_def saved_append)
    show ?thesis
    proof (cases "n = 0")
      case True
      with "2.prems" \<open>writable_ok io k \<and> Encode_ok (encode io k)\<close> have "s' = s3"
        by (simp add: e s3_def Let_def)
      with k3 show ?thesis by simp
    next
      case False
      with "2.prems" True have r: "encode_pending io fid (Suc k) n s3 = Done s'"
        by (simp add: e s3_def Let_def)
      have "saved (out s') = saved (out s3)"
        using "2.IH" [OF _ refl e [symmetric] _ refl refl False] r True
        by (simp add: s3_def)
      with k3 show ?thesis by simp
    qed
  qed
qed

lemma FrameTask_call_saved:
  assumes "FrameTask_call fid io s = Done s'" and "frames s fid = Some fr" and "pixels io"
  shows "saved (out s') = saved (out s) @ fscreenshotPaths fr"
proof -
  define s1 where "s1 = (says (save_screenshots io 0 (fscreenshotPaths fr)) s)
                        \<lparr>frames := (frames s)(fid \<mapsto> fr\<lparr>fscreenshotPaths := []\<rparr>)\<rparr>"
  have k1: "saved (out s1) = saved (out s) @ fscreenshotPaths fr"
    by (simp add: s1_def saved_append)
  have "s' = s1 \<or> (\<exists>m. Cleanup (say (Cerr m) s1) = Done s')
        \<or> encode_pending io fid 0 (nat (videoPendingFrames fr)) s1 = Done s'"
    using assms by (auto simp: FrameTask_call_def s1_def Let_def split: if_splits)
  then have "saved (out s') = saved (out s1)"
    by (auto dest!: Cleanup_saved encode_pending_saved simp: saved_append)
  with k1 show ?thesis by simp
qed

text \<open>
  A screenshot-only sample whose callback throws: the retry finds neither a frame due
  nor a path, since the paths were moved into the failed request.
\<close>

lemma failed_sample_drops_screenshot:
  "\<exists>s'. run 1 [Call_Screenshot ''shot.png'' (env_ok 0 0), Call_SampleFrame (env_once 0 0)] init
          = Done s'
      \<and> screenshotPaths s' = [] \<and> taskQueue s' = []
      \<and> out s' = [RequestFrame 0 [''shot.png''], Cerr (SubmitError SampleFail True)]"
  by (simp add: do_call_def Screenshot_ok SampleFrame.simps SampleFrame_try_def Error_def
      init_def env_ok_def env_once_def env_throws_def say_def Let_def)

text \<open>
  C5, as the code has it. Paths passed to \<open>Screenshot\<close> are appended to
  \<open>screenshotPaths\<close> in the order of the calls. A \<open>SampleFrame\<close> that finds the queue of
  paths not empty invokes the callback with all the paths, in any record mode, whether
  or not a video frame is due and whether or not the submission succeeds afterwards;
  when the submission succeeds, the frame handle holds all the paths in
  that order, the recorder's queue of paths is empty and the frame task is queued. When
  that task is executed with a non-null pixel pointer and no open session, a save is
  attempted for each path, in that order, and nothing is sent to the encoder. End to
  end: after any non-empty sequence of \<open>Screenshot\<close> calls, a sample, \<open>Ready\<close> and one
  worker iteration, the image writer has been called for exactly these paths, in order.
  With a session open the same paths are written, before the frame is encoded.
\<close>

theorem C5_screenshots:
  "(fault (env 0) = NoFault \<longrightarrow>
      run P (map (\<lambda>n. Call_Screenshot n env) names) s
        = Done (s\<lparr>screenshotPaths := screenshotPaths s @ names\<rparr>))
   \<and> (screenshotPaths s \<noteq> [] \<and> callback (env k) = Some fid \<and> fault (env k) = NoFault \<longrightarrow>
        (\<exists>n nf. SampleFrame P env k s =
           Done (push_back (CFrameTask fid) (new_frame fid (screenshotPaths s) n
                   (say (RequestFrame n (screenshotPaths s))
                      (s\<lparr>nextFrame := nf, screenshotPaths := []\<rparr>))))))
   \<and> (frames s fid = Some fr \<and> pixels io \<and> videoFile s = None \<longrightarrow>
        FrameTask_call fid io s
          = Done ((says (save_screenshots io 0 (fscreenshotPaths fr)) s)
                    \<lparr>frames := (frames s)(fid \<mapsto> fr\<lparr>fscreenshotPaths := []\<rparr>)\<rparr>)
        \<and> saved (save_screenshots io 0 (fscreenshotPaths fr)) = fscreenshotPaths fr)
   \<and> (taskQueue s = [] \<and> \<not> finish s \<and> videoFile s = None \<and> screenshotPaths s = []
        \<and> names \<noteq> [] \<and> fault (env 0) = NoFault \<and> callback (env 0) = Some fid \<and> pixels io \<longrightarrow>
        (\<exists>s'. run P (map (\<lambda>n. Call_Screenshot n env) names
                      @ [Call_SampleFrame env, Call_Ready True fid, Worker io]) s = Done s'
           \<and> saved (out s') = saved (out s) @ names
           \<and> video_io (out s') = video_io (out s)
           \<and> taskQueue s' = []))
   \<and> (frames s fid = Some fr \<and> pixels io \<and> FrameTask_call fid io s = Done s1 \<longrightarrow>
        saved (out s1) = saved (out s) @ fscreenshotPaths fr)
   \<and> (screenshotPaths s \<noteq> [] \<and> SampleFrame P env k s = Done s2 \<longrightarrow>
        (\<exists>n evs. out s2 = out s @ RequestFrame n (screenshotPaths s) # evs))"
proof -
  have f: "\<exists>n evs. out s2 = out s @ RequestFrame n (screenshotPaths s) # evs"
    if "screenshotPaths s \<noteq> [] \<and> SampleFrame P env k s = Done s2"
    using that SampleFrame_hands_over [of s P env k s2] by blast
  have e: "saved (out s1) = saved (out s) @ fscreenshotPaths fr"
    if "frames s fid = Some fr \<and> pixels io \<and> FrameTask_call fid io s = Done s1"
    using that FrameTask_call_saved [of fid io s s1 fr] by blast
  have a: "run P (map (\<lambda>n. Call_Screenshot n env) names) s
        = Done (s\<lparr>screenshotPaths := screenshotPaths s @ names\<rparr>)" if "fault (env 0) = NoFault"
    using that by (rule run_screenshots)
  have b: "\<exists>n nf. SampleFrame P env k s =
           Done (push_back (CFrameTask fid) (new_frame fid (screenshotPaths s) n
                   (say (RequestFrame n (screenshotPaths s))
                      (s\<lparr>nextFrame := nf, screenshotPaths := []\<rparr>))))"
    if "screenshotPaths s \<noteq> [] \<and> callback (env k) = Some fid \<and> fault (env k) = NoFault"
    using that SampleFrame_paths_ok [of s env k fid P] by blast
  have c: "FrameTask_call fid io s
          = Done ((says (save_screenshots io 0 (fscreenshotPaths fr)) s)
                    \<lparr>frames := (frames s)(fid \<mapsto> fr\<lparr>fscreenshotPaths := []\<rparr>)\<rparr>)
        \<and> saved (save_screenshots io 0 (fscreenshotPaths fr)) = fscreenshotPaths fr"
    if "frames s fid = Some fr \<and> pixels io \<and> videoFile s = None"
    using that by (simp add: FrameTask_call_def Let_def)
  have d: "\<exists>s'. run P (map (\<lambda>n. Call_Screenshot n env) names
                      @ [Call_SampleFrame env, Call_Ready True fid, Worker io]) s = Done s'
           \<and> saved (out s') = saved (out s) @ names
           \<and> video_io (out s') = video_io (out s)
           \<and> taskQueue s' = []"
    if h: "taskQueue s = [] \<and> \<not> finish s \<and> videoFile s = None \<and> screenshotPaths s = []
        \<and> names \<noteq> [] \<and> fault (env 0) = NoFault \<and> callback (env 0) = Some fid \<and> pixels io"
  proof -
    let ?s1 = "s\<lparr>screenshotPaths := names\<rparr>"
    from h have r1: "run P (map (\<lambda>n. Call_Screenshot n env) names) s = Done ?s1"
      by (simp add: run_screenshots)
    from h have p: "screenshotPaths ?s1 = names" "screenshotPaths ?s1 \<noteq> []" by simp_all
    from SampleFrame_paths_ok [of ?s1 env 0 fid P] p h obtain n nf
      where sf: "SampleFrame P env 0 ?s1 =
        Done (push_back (CFrameTask fid) (new_frame fid names n
                (say (RequestFrame n names) (?s1\<lparr>nextFrame := nf, screenshotPaths := []\<rparr>))))"
      by auto
    show ?thesis
      using h
      by (simp add: run_append r1 do_call_def sf Ready_def Process_def
          task_ready_def task_call_def FrameTask_call_def push_back_def new_frame_def
          saved_append video_io_append Let_def)
  qed
  from a b c d e f show ?thesis by blast
qed

text \<open>
  One screenshot, a sample, \<open>Ready\<close>, and the worker executes the frame task with a null
  pixel pointer: the task has been executed and nothing has been saved.
\<close>

theorem C5_counterexample:
  "run 1 [Call_Screenshot ''shot.png'' (env_ok 0 0), Call_SampleFrame (env_ok 0 0),
          Call_Ready True 0, Worker io_null] init = Done unsaved
   \<and> saved (out unsaved) = []
   \<and> frames unsaved 0
       = Some \<lparr>fscreenshotPaths = [''shot.png''], videoPendingFrames = 0, ready = True\<rparr>"
  by (simp add: do_call_def Screenshot_ok SampleFrame.simps SampleFrame_try_def Ready_def
      Process_def task_ready_def task_call_def FrameTask_call_def init_def env_ok_def
      io_null_def io_ok_def unsaved_def push_back_def new_frame_def say_def Let_def)

text \<open>Two screenshots while nothing is recorded.\<close>

theorem C5_screenshots_witness:
  "\<exists>s'. run 1 (map (\<lambda>n. Call_Screenshot n (env_ok 0 0)) [''a.png'', ''b.tga'']
                @ [Call_SampleFrame (env_ok 0 0), Call_Ready True 0, Worker io_ok]) init = Done s'
      \<and> saved (out s') = [''a.png'', ''b.tga''] \<and> video_io (out s') = [] \<and> taskQueue s' = []"
  using C5_screenshots [where s = init and env = "env_ok 0 0" and fid = 0 and io = io_ok
      and P = 1 and names = "[''a.png'', ''b.tga'']"]
  by (simp add: init_def env_ok_def io_ok_def)

end
